theory Spec2Isabelle
  imports Complex_Main "HOL-Library.Log_Nat" "HOL-Library.Multiset" "HOL-Library.Sublist"
begin

section \<open>JavaScript numbers\<close>

text \<open>
  A JavaScript number is an IEEE-754 binary64 value: a finite value (always a rational;
  the two zeros are identified), one of the two infinities, or NaN. The comparison
  operators are those of the language: every comparison with NaN is false.
\<close>

datatype jsnum = Num rat | PosInf | NegInf | NaN

fun js_less :: "jsnum \<Rightarrow> jsnum \<Rightarrow> bool" where
  "js_less NaN _ = False"
| "js_less _ NaN = False"
| "js_less (Num a) (Num b) = (a < b)"
| "js_less (Num a) PosInf = True"
| "js_less (Num a) NegInf = False"
| "js_less PosInf _ = False"
| "js_less NegInf NegInf = False"
| "js_less NegInf _ = True"

fun isNaN :: "jsnum \<Rightarrow> bool" where
  "isNaN NaN = True"
| "isNaN _ = False"

section \<open>Alert levels (the application)\<close>

datatype tier = NORMAL | WARNING | DANGER

text \<open>The entries of \<^verbatim>\<open>ALERT_LEVELS\<close>: the range and the ASCII display metadata
  (the icon and the German description play no part in the classification).\<close>

record alert_level =
  min_level :: jsnum
  max_level :: jsnum
  color :: string
  bgColor :: string
  label :: string
  labelDE :: string

fun ALERT_LEVELS :: "tier \<Rightarrow> alert_level" where
  "ALERT_LEVELS NORMAL =
     \<lparr>min_level = Num 0, max_level = Num 400, color = ''#4CAF50'',
      bgColor = ''rgba(76, 175, 80, 0.1)'', label = ''Normal'', labelDE = ''Normal''\<rparr>"
| "ALERT_LEVELS WARNING =
     \<lparr>min_level = Num 400, max_level = Num 800, color = ''#FF9800'',
      bgColor = ''rgba(255, 152, 0, 0.1)'', label = ''Warning'', labelDE = ''Warnung''\<rparr>"
| "ALERT_LEVELS DANGER =
     \<lparr>min_level = Num 800, max_level = PosInf, color = ''#F44336'',
      bgColor = ''rgba(244, 67, 54, 0.1)'', label = ''Danger'', labelDE = ''Gefahr''\<rparr>"

text \<open>\<^verbatim>\<open>RheinPegelApp.getAlertLevel\<close>: two comparisons against the upper bounds.\<close>

definition getAlertLevel :: "jsnum \<Rightarrow> alert_level" where
  "getAlertLevel waterLevel =
     (if js_less waterLevel (max_level (ALERT_LEVELS NORMAL)) then ALERT_LEVELS NORMAL
      else if js_less waterLevel (max_level (ALERT_LEVELS WARNING)) then ALERT_LEVELS WARNING
      else ALERT_LEVELS DANGER)"

section \<open>Errors\<close>

text \<open>A thrown \<^verbatim>\<open>Error\<close> object: its \<^verbatim>\<open>name\<close> and its \<^verbatim>\<open>message\<close>. A function that can
  throw returns \<open>jserror + 'a\<close>, with \<open>Inl\<close> for the exception.\<close>

record jserror =
  name :: string
  message :: string

definition Error :: "string \<Rightarrow> jserror" where
  "Error msg = \<lparr>name = ''Error'', message = msg\<rparr>"

section \<open>Readings and the persisted history (storage.js)\<close>

text \<open>
  A reading object has the properties \<^verbatim>\<open>waterLevel\<close>, \<^verbatim>\<open>date\<close>, \<^verbatim>\<open>time\<close>, \<^verbatim>\<open>timestamp\<close>
  and possibly \<^verbatim>\<open>graphic\<close>. The parser always sets \<^verbatim>\<open>graphic\<close> (to a string or to
  \<^verbatim>\<open>null\<close>); an object literal that does not mention the property has it \<open>Absent\<close>.
  Timestamps are integral milliseconds.
\<close>

datatype jsfield = Absent | Null | Str string

record reading =
  waterLevel :: jsnum
  date :: string
  time :: string
  timestamp :: int
  graphic :: jsfield

text \<open>The \<^verbatim>\<open>version\<close> property of a parsed blob: missing, a string, or a value of another
  type.\<close>

datatype jsversion = VUndefined | VString string | VOther

record storage =
  version :: jsversion
  readings :: "reading list"
  lastUpdated :: "int option"

text \<open>
  The slot of \<^verbatim>\<open>localStorage\<close> under the storage key: no item (\<^verbatim>\<open>getItem\<close> gives
  \<^verbatim>\<open>null\<close>), a string that \<^verbatim>\<open>JSON.parse\<close> rejects or parses to \<^verbatim>\<open>null\<close> (so that reading
  its version throws), or a parsed structure. \<^verbatim>\<open>JSON.stringify\<close> followed by
  \<^verbatim>\<open>JSON.parse\<close> is the identity on the structures written here, levels being finite.
\<close>

datatype slot = NoItem | Malformed | Parsed storage

text \<open>\<^verbatim>\<open>localStorage.setItem\<close> either stores the value or throws; which of the two is
  up to the browser (the quota), so it is a parameter.\<close>

datatype set_outcome = Written | Throws jserror

record storage_env =
  setItem :: "storage \<Rightarrow> set_outcome"

text \<open>The fields the constructor of \<^verbatim>\<open>WaterLevelStorage\<close> sets.\<close>

definition maxAge :: int where
  "maxAge = 24 * 60 * 60 * 1000"

definition maxEntries :: nat where
  "maxEntries = 1440"

definition this_version :: string where
  "this_version = ''1.0.0''"

definition createEmptyStorage :: storage where
  "createEmptyStorage = \<lparr>version = VString this_version, readings = [], lastUpdated = None\<rparr>"

text \<open>\<^verbatim>\<open>getStorageData\<close>: every failure and a version mismatch give the empty
  structure.\<close>

fun getStorageData :: "slot \<Rightarrow> storage" where
  "getStorageData NoItem = createEmptyStorage"
| "getStorageData Malformed = createEmptyStorage"
| "getStorageData (Parsed parsed) =
     (if version parsed \<noteq> VString this_version then createEmptyStorage else parsed)"

text \<open>\<^verbatim>\<open>setStorageData\<close>: on a quota error the older half of the entries is dropped and
  the write is tried once more; any other error, and an error of the second write,
  propagates.\<close>

definition setStorageData :: "storage_env \<Rightarrow> storage \<Rightarrow> jserror + slot" where
  "setStorageData env data =
     (case setItem env data of
        Written \<Rightarrow> Inr (Parsed data)
      | Throws error \<Rightarrow>
          if name error = ''QuotaExceededError'' then
            (let data' = data\<lparr>readings :=
                   take (length (readings data) div 2) (readings data)\<rparr>
             in case setItem env data' of
                  Written \<Rightarrow> Inr (Parsed data')
                | Throws error' \<Rightarrow> Inl error')
          else Inl error)"

text \<open>\<^verbatim>\<open>cleanOldData\<close> at clock reading \<open>now\<close>; a failed write is logged and leaves the
  slot as it was.\<close>

definition cleanOldData :: "storage_env \<Rightarrow> int \<Rightarrow> slot \<Rightarrow> slot" where
  "cleanOldData env now slot =
     (let storage = getStorageData slot;
          cutoffTime = now - maxAge;
          storage' = storage\<lparr>readings :=
            filter (\<lambda>reading. timestamp reading \<ge> cutoffTime) (readings storage)\<rparr>
      in case setStorageData env storage' of
           Inr slot' \<Rightarrow> slot'
         | Inl error \<Rightarrow> slot)"

text \<open>The object literal pushed by \<^verbatim>\<open>saveReading\<close>: four properties copied from the
  argument.\<close>

definition stored_entry :: "reading \<Rightarrow> reading" where
  "stored_entry data =
     \<lparr>waterLevel = waterLevel data, date = date data, time = time data,
      timestamp = timestamp data, graphic = Absent\<rparr>"

text \<open>\<^verbatim>\<open>Array.prototype.sort\<close> is stable; with the comparator
  \<^verbatim>\<open>(a, b) => b.timestamp - a.timestamp\<close> it sorts by descending timestamp.\<close>

definition sort_newest_first :: "reading list \<Rightarrow> reading list" where
  "sort_newest_first rs = sort_key (\<lambda>r. - timestamp r) rs"

text \<open>Lines 27 to 43 of \<^verbatim>\<open>saveReading\<close>: push, sort, truncate, stamp. \<open>now\<close> is the
  clock reading of that \<^verbatim>\<open>Date.now()\<close>.\<close>

definition insertReading :: "int \<Rightarrow> storage \<Rightarrow> reading \<Rightarrow> storage" where
  "insertReading now storage data =
     (let pushed = readings storage @ [stored_entry data];
          sorted_rs = sort_newest_first pushed;
          limited = (if length sorted_rs > maxEntries then take maxEntries sorted_rs else sorted_rs)
      in storage\<lparr>readings := limited, lastUpdated := Some now\<rparr>)"

text \<open>\<^verbatim>\<open>saveReading\<close>: the result and the slot afterwards. \<open>now'\<close> is the later clock
  reading inside \<^verbatim>\<open>cleanOldData\<close>.\<close>

definition saveReading :: "storage_env \<Rightarrow> int \<Rightarrow> int \<Rightarrow> slot \<Rightarrow> reading \<Rightarrow> bool \<times> slot" where
  "saveReading env now now' slot data =
     (let storage = insertReading now (getStorageData slot) data
      in case setStorageData env storage of
           Inl error \<Rightarrow> (False, slot)
         | Inr slot' \<Rightarrow> (True, cleanOldData env now' slot'))"

text \<open>\<^verbatim>\<open>getHistoricalData(hours)\<close> at clock reading \<open>now\<close>.\<close>

definition getHistoricalData :: "int \<Rightarrow> slot \<Rightarrow> int \<Rightarrow> reading list" where
  "getHistoricalData now slot hours =
     (let storage = getStorageData slot;
          cutoffTime = now - (hours * 60 * 60 * 1000);
          filteredReadings = filter (\<lambda>reading. timestamp reading \<ge> cutoffTime) (readings storage)
      in sort_key timestamp filteredReadings)"

definition getLatestReading :: "slot \<Rightarrow> reading option" where
  "getLatestReading slot =
     (let storage = getStorageData slot
      in if length (readings storage) > 0 then Some (readings storage ! 0) else None)"

text \<open>A sequence of \<^verbatim>\<open>saveReading\<close> calls, each with its two clock readings; the slot
  after the last one.\<close>

fun saveReadings :: "storage_env \<Rightarrow> slot \<Rightarrow> (int \<times> int \<times> reading) list \<Rightarrow> slot" where
  "saveReadings env slot [] = slot"
| "saveReadings env slot ((now, now', data) # calls) =
     saveReadings env (snd (saveReading env now now' slot data)) calls"

text \<open>The invariant of the store: at most \<open>maxEntries\<close> readings, newest first.\<close>

definition newest_first :: "reading list \<Rightarrow> bool" where
  "newest_first rs = sorted_wrt (\<lambda>a b. timestamp a \<ge> timestamp b) rs"

definition store_ok :: "slot \<Rightarrow> bool" where
  "store_ok slot =
     (length (readings (getStorageData slot)) \<le> maxEntries \<and>
      newest_first (readings (getStorageData slot)))"

text \<open>Sample data: a browser that accepts every write, two readings one millisecond
  apart, and a persisted history that is full.\<close>

text \<open>No stored reading carries a \<^verbatim>\<open>graphic\<close> property.\<close>

definition no_graphic :: "slot \<Rightarrow> bool" where
  "no_graphic slot = (\<forall>r \<in> set (readings (getStorageData slot)). graphic r = Absent)"

definition accept_all :: storage_env where
  "accept_all = \<lparr>setItem = (\<lambda>data. Written)\<rparr>"

text \<open>A browser whose storage is full: every write throws a quota error.\<close>

definition quota_exhausted :: storage_env where
  "quota_exhausted =
     \<lparr>setItem = (\<lambda>data. Throws \<lparr>name = ''QuotaExceededError'', message = ''quota''\<rparr>)\<rparr>"

definition reading_1000 :: reading where
  "reading_1000 = \<lparr>waterLevel = Num 368, date = ''27. Oktober 2025'', time = ''15:25'',
     timestamp = 1000, graphic = Str ''pegel.png''\<rparr>"

definition reading_999 :: reading where
  "reading_999 = \<lparr>waterLevel = Num 367, date = ''27. Oktober 2025'', time = ''15:24'',
     timestamp = 999, graphic = Null\<rparr>"

definition old_version_slot :: slot where
  "old_version_slot = Parsed \<lparr>version = VString ''0.9.0'',
     readings = [reading_1000], lastUpdated = Some 1000\<rparr>"

definition full_slot :: slot where
  "full_slot = Parsed \<lparr>version = VString ''1.0.0'',
     readings = replicate 1440 (stored_entry reading_1000), lastUpdated = Some 1000\<rparr>"

section \<open>Strings\<close>

text \<open>
  A string is a list of code units; a \<open>char\<close> stands for a code unit below 256, so that
  \<open>CHR 0xE4\<close> is the a-umlaut of \<^verbatim>\<open>Maerz\<close> as the source spells it. The character
  classes are those of JavaScript regular expressions (\<^verbatim>\<open>\d\<close>, \<^verbatim>\<open>\w\<close>, \<^verbatim>\<open>\s\<close>) on
  these code units; \<^verbatim>\<open>trim\<close> strips the same white space as \<^verbatim>\<open>\s\<close> matches.
\<close>

definition isDigit :: "char \<Rightarrow> bool" where
  "isDigit c = (c \<in> set ''0123456789'')"

definition isWordChar :: "char \<Rightarrow> bool" where
  "isWordChar c =
     (c \<in> set ''ABCDEFGHIJKLMNOPQRSTUVWXYZabcdefghijklmnopqrstuvwxyz0123456789_'')"

definition isWhiteSpace :: "char \<Rightarrow> bool" where
  "isWhiteSpace c =
     (c \<in> set [CHR 0x09, CHR 0x0A, CHR 0x0B, CHR 0x0C, CHR 0x0D, CHR 0x20, CHR 0xA0])"

definition trim :: "string \<Rightarrow> string" where
  "trim s = rev (dropWhile isWhiteSpace (rev (dropWhile isWhiteSpace s)))"

text \<open>\<^verbatim>\<open>s.replace(',', '.')\<close> replaces the first comma only.\<close>

fun replace_comma :: "string \<Rightarrow> string" where
  "replace_comma [] = []"
| "replace_comma (c # cs) = (if c = CHR '','' then CHR ''.'' # cs else c # replace_comma cs)"

text \<open>\<^verbatim>\<open>s.includes(sub)\<close>.\<close>

fun includes_str :: "string \<Rightarrow> string \<Rightarrow> bool" where
  "includes_str sub [] = (sub = [])"
| "includes_str sub (c # cs) = (prefix sub (c # cs) \<or> includes_str sub cs)"

definition digit_value :: "char \<Rightarrow> nat" where
  "digit_value c = of_char c - 48"

text \<open>The value of a string of decimal digits (\<^verbatim>\<open>parseInt\<close> on such a string).\<close>

definition digits_value :: "string \<Rightarrow> nat" where
  "digits_value ds = foldl (\<lambda>a c. 10 * a + digit_value c) 0 ds"

text \<open>The decimal representation of a natural number, as a template literal prints
  it.\<close>

fun show_nat :: "nat \<Rightarrow> string" where
  "show_nat n =
     (if n < 10 then [char_of (48 + n)] else show_nat (n div 10) @ [char_of (48 + n mod 10)])"

section \<open>Double precision arithmetic\<close>

text \<open>
  The operations on numbers round their exact result to the nearest binary64 value,
  ties to even. \<open>binade x\<close> is the exponent \<open>e\<close> with \<open>2^e \<le> x < 2^(e+1)\<close> of a positive
  rational; a binary64 value with exponent \<open>e\<close> is a multiple of \<open>2^(e-52)\<close>, the exponent
  being at least \<open>-1022\<close> (below, the values are subnormal); results from \<open>2^1024\<close> on
  overflow to an infinity.
\<close>

definition binade :: "rat \<Rightarrow> int" where
  "binade x =
     (let (p, q) = quotient_of x;
          k = bitlen p - bitlen q
      in if 2 powi k \<le> x then k else k - 1)"

definition round_half_even :: "rat \<Rightarrow> int" where
  "round_half_even q =
     (let f = \<lfloor>q\<rfloor>; d = q - of_int f
      in if d < 1 / 2 then f else if 1 / 2 < d then f + 1 else if even f then f else f + 1)"

definition round_double :: "rat \<Rightarrow> jsnum" where
  "round_double x =
     (if x = 0 then Num 0
      else let a = \<bar>x\<bar>;
               e = max (binade a) (- 1022);
               ulp = 2 powi (e - 52);
               r = of_int (round_half_even (a / ulp)) * ulp
           in if 2 powi 1024 \<le> r then (if x < 0 then NegInf else PosInf)
              else Num (if x < 0 then - r else r))"

text \<open>The product of two numbers (\<^verbatim>\<open>a * b\<close>).\<close>

fun js_sign_neg :: "jsnum \<Rightarrow> bool" where
  "js_sign_neg (Num a) = (a < 0)"
| "js_sign_neg NegInf = True"
| "js_sign_neg _ = False"

fun js_mul :: "jsnum \<Rightarrow> jsnum \<Rightarrow> jsnum" where
  "js_mul NaN _ = NaN"
| "js_mul _ NaN = NaN"
| "js_mul (Num a) (Num b) = round_double (a * b)"
| "js_mul (Num a) y = (if a = 0 then NaN else if (a < 0) = js_sign_neg y then PosInf else NegInf)"
| "js_mul x (Num b) = (if b = 0 then NaN else if (b < 0) = js_sign_neg x then PosInf else NegInf)"
| "js_mul x y = (if js_sign_neg x = js_sign_neg y then PosInf else NegInf)"

text \<open>\<^verbatim>\<open>Math.round\<close>: the nearest integer, a half going up.\<close>

fun Math_round :: "jsnum \<Rightarrow> jsnum" where
  "Math_round (Num a) = Num (of_int \<lfloor>a + 1 / 2\<rfloor>)"
| "Math_round x = x"

text \<open>
  \<^verbatim>\<open>parseFloat\<close>: leading white space is skipped, then the longest prefix that is a
  decimal literal is taken: an optional sign, then \<^verbatim>\<open>Infinity\<close>, or digits with an
  optional point and fraction, or a point and a fraction, each with an optional
  exponent part. Without such a prefix the result is NaN.
\<close>

definition exponent_part :: "string \<Rightarrow> int" where
  "exponent_part s =
     (case s of
        [] \<Rightarrow> 0
      | c # r \<Rightarrow>
          if c = CHR ''e'' \<or> c = CHR ''E'' then
            (case r of
               [] \<Rightarrow> 0
             | d # r' \<Rightarrow>
                 if d = CHR ''-'' then
                   (if takeWhile isDigit r' = [] then 0
                    else - int (digits_value (takeWhile isDigit r')))
                 else if d = CHR ''+'' then int (digits_value (takeWhile isDigit r'))
                 else int (digits_value (takeWhile isDigit r)))
          else 0)"

definition unsigned_literal :: "string \<Rightarrow> rat option" where
  "unsigned_literal u =
     (let ip = takeWhile isDigit u;
          r1 = dropWhile isDigit u;
          has_point = (case r1 of [] \<Rightarrow> False | c # r \<Rightarrow> c = CHR ''.'');
          fp = (if has_point then takeWhile isDigit (tl r1) else []);
          r2 = (if has_point then dropWhile isDigit (tl r1) else r1)
      in if ip = [] \<and> fp = [] then None
         else Some (of_nat (digits_value (ip @ fp))
                    * 10 powi (exponent_part r2 - int (length fp))))"

definition parseFloat :: "string \<Rightarrow> jsnum" where
  "parseFloat s =
     (let t = dropWhile isWhiteSpace s;
          negative = (case t of [] \<Rightarrow> False | c # r \<Rightarrow> c = CHR ''-'');
          signed = (case t of [] \<Rightarrow> False | c # r \<Rightarrow> c = CHR ''-'' \<or> c = CHR ''+'');
          u = (if signed then tl t else t)
      in if prefix ''Infinity'' u then (if negative then NegInf else PosInf)
         else case unsigned_literal u of
                None \<Rightarrow> NaN
              | Some v \<Rightarrow> round_double (if negative then - v else v))"

section \<open>The parser (api.js)\<close>

text \<open>\<^verbatim>\<open>convertGermanDecimal\<close>: the error thrown inside the \<^verbatim>\<open>try\<close> is caught by its
  own \<^verbatim>\<open>catch\<close> and thrown again with a longer message.\<close>

definition convertGermanDecimal :: "string \<Rightarrow> jserror + jsnum" where
  "convertGermanDecimal germanNumber =
     (case (let meters = parseFloat (replace_comma (trim germanNumber))
            in if isNaN meters then Inl (Error (''Invalid number format: '' @ germanNumber))
               else Inr (Math_round (js_mul meters (Num 100))))
      of Inl error \<Rightarrow> Inl (Error (''Number conversion failed: '' @ message error))
       | Inr centimeters \<Rightarrow> Inr centimeters)"

text \<open>The conversion as the specification words it: replace the comma by a point, parse
  as floating point, multiply by 100, round to the nearest integer, a half going up.\<close>

definition spec_convert :: "string \<Rightarrow> jsnum" where
  "spec_convert s = Math_round (js_mul (parseFloat (replace_comma s)) (Num 100))"

text \<open>
  The match of \<^verbatim>\<open>/(\d+)\.\s+(\w+)\s+(\d{4})/\<close> that starts at the head of a string: the
  three groups. The classes of adjacent greedy parts are disjoint (digits and the point,
  white space and word characters, white space and digits), so each part can only take
  its longest run and no backtracking changes the outcome.
\<close>

definition match_date_here :: "string \<Rightarrow> (string \<times> string \<times> string) option" where
  "match_date_here s =
     (let day = takeWhile isDigit s; r1 = dropWhile isDigit s
      in if day = [] then None
         else case r1 of
                [] \<Rightarrow> None
              | c # r2 \<Rightarrow>
                  if c \<noteq> CHR ''.'' then None
                  else let r3 = dropWhile isWhiteSpace r2;
                           monthName = takeWhile isWordChar r3;
                           r4 = dropWhile isWordChar r3;
                           r5 = dropWhile isWhiteSpace r4
                       in if takeWhile isWhiteSpace r2 = [] \<or> monthName = [] \<or>
                             takeWhile isWhiteSpace r4 = [] then None
                          else if 4 \<le> length r5 \<and> list_all isDigit (take 4 r5)
                               then Some (day, monthName, take 4 r5)
                               else None)"

text \<open>\<^verbatim>\<open>dateStr.match(...)\<close>: the leftmost position at which the expression matches.\<close>

fun match_date :: "string \<Rightarrow> (string \<times> string \<times> string) option" where
  "match_date [] = None"
| "match_date (c # cs) =
     (case match_date_here (c # cs) of
        Some groups \<Rightarrow> Some groups
      | None \<Rightarrow> match_date cs)"

text \<open>
  The match of \<^verbatim>\<open>/(\d{1,2}):(\d{2})/\<close> at the head of a string. The first group takes
  two digits if it can and falls back to one.
\<close>

definition match_time_rest :: "string \<Rightarrow> string \<Rightarrow> (string \<times> string) option" where
  "match_time_rest hours r =
     (case r of
        c # d # e # _ \<Rightarrow>
          if c = CHR '':'' \<and> isDigit d \<and> isDigit e then Some (hours, [d, e]) else None
      | _ \<Rightarrow> None)"

definition match_time_here :: "string \<Rightarrow> (string \<times> string) option" where
  "match_time_here s =
     (case s of
        [] \<Rightarrow> None
      | a # r \<Rightarrow>
          if \<not> isDigit a then None
          else case (case r of
                       b # r' \<Rightarrow> if isDigit b then match_time_rest [a, b] r' else None
                     | [] \<Rightarrow> None) of
                 Some groups \<Rightarrow> Some groups
               | None \<Rightarrow> match_time_rest [a] r)"

fun match_time :: "string \<Rightarrow> (string \<times> string) option" where
  "match_time [] = None"
| "match_time (c # cs) =
     (case match_time_here (c # cs) of
        Some groups \<Rightarrow> Some groups
      | None \<Rightarrow> match_time cs)"

text \<open>
  The lookup \<^verbatim>\<open>monthNames[monthName]\<close>: the index of one of the twelve names, a value
  inherited from \<^verbatim>\<open>Object.prototype\<close> (which is not \<^verbatim>\<open>undefined\<close> either), or
  \<^verbatim>\<open>undefined\<close>.
\<close>

datatype month_value = MonthIndex nat | Inherited

definition month_table :: "(string \<times> nat) list" where
  "month_table =
     [(''Januar'', 0), (''Februar'', 1), ([CHR ''M'', CHR 0xE4, CHR ''r'', CHR ''z''], 2),
      (''April'', 3), (''Mai'', 4), (''Juni'', 5), (''Juli'', 6), (''August'', 7),
      (''September'', 8), (''Oktober'', 9), (''November'', 10), (''Dezember'', 11)]"

definition object_prototype_names :: "string list" where
  "object_prototype_names =
     [''constructor'', ''hasOwnProperty'', ''isPrototypeOf'', ''propertyIsEnumerable'',
      ''toLocaleString'', ''toString'', ''valueOf'', ''__proto__'', ''__defineGetter__'',
      ''__defineSetter__'', ''__lookupGetter__'', ''__lookupSetter__'']"

definition monthNames :: "string \<Rightarrow> month_value option" where
  "monthNames monthName =
     (case map_of month_table monthName of
        Some i \<Rightarrow> Some (MonthIndex i)
      | None \<Rightarrow> if monthName \<in> set object_prototype_names then Some Inherited else None)"

text \<open>
  What the parser takes from the browser: the document \<^verbatim>\<open>DOMParser\<close> builds from a
  string, reduced to what \<^verbatim>\<open>querySelector(...)?.textContent\<close> reads from it (the text of
  the first element of each name, if there is one); the clock; and the local time of
  \<^verbatim>\<open>new Date(year, month, day, hours, minutes).getTime()\<close>, which depends on the time
  zone.
\<close>

record xml_document =
  parsererror :: "string option"
  Datum :: "string option"
  Uhrzeit :: "string option"
  Pegel :: "string option"
  Grafik :: "string option"

datatype fetch_outcome =
    Rejected jserror
  | Response bool nat "jserror + string"

record browser =
  parseFromString :: "string \<Rightarrow> xml_document"
  Date_now :: int
  Date_getTime :: "nat \<Rightarrow> month_value \<Rightarrow> nat \<Rightarrow> nat \<Rightarrow> nat \<Rightarrow> int"
  fetch :: "nat \<Rightarrow> string \<Rightarrow> fetch_outcome"

text \<open>\<^verbatim>\<open>parseGermanDateTime\<close>: each \<^verbatim>\<open>throw\<close> lands in the \<^verbatim>\<open>catch\<close>, which returns the
  current time.\<close>

definition parseGermanDateTime :: "browser \<Rightarrow> string \<Rightarrow> string \<Rightarrow> int" where
  "parseGermanDateTime env dateStr timeStr =
     (case match_date dateStr of
        None \<Rightarrow> Date_now env
      | Some (day, monthName, year) \<Rightarrow>
          (case monthNames monthName of
             None \<Rightarrow> Date_now env
           | Some month \<Rightarrow>
               (case match_time timeStr of
                  None \<Rightarrow> Date_now env
                | Some (hours, minutes) \<Rightarrow>
                    Date_getTime env (digits_value year) month (digits_value day)
                      (digits_value hours) (digits_value minutes))))"

text \<open>\<^verbatim>\<open>grafik?.trim() || null\<close>.\<close>

definition graphic_of :: "string option \<Rightarrow> jsfield" where
  "graphic_of grafik =
     (case grafik of
        None \<Rightarrow> Null
      | Some g \<Rightarrow> if trim g = [] then Null else Str (trim g))"

text \<open>\<^verbatim>\<open>parseXMLResponse\<close>. A missing element gives \<^verbatim>\<open>undefined\<close>, which is falsy as
  the empty string is.\<close>

definition parseXMLResponse :: "browser \<Rightarrow> string \<Rightarrow> jserror + reading" where
  "parseXMLResponse env xmlString =
     (case (let xmlDoc = parseFromString env xmlString
            in case parsererror xmlDoc of
                 Some textContent \<Rightarrow> Inl (Error (''XML parsing error: '' @ textContent))
               | None \<Rightarrow>
                   (case (Datum xmlDoc, Uhrzeit xmlDoc, Pegel xmlDoc) of
                      (Some datum, Some uhrzeit, Some pegel) \<Rightarrow>
                        if datum = [] \<or> uhrzeit = [] \<or> pegel = []
                        then Inl (Error ''Missing required fields in XML response'')
                        else (case convertGermanDecimal pegel of
                                Inl error \<Rightarrow> Inl error
                              | Inr level \<Rightarrow>
                                  Inr \<lparr>waterLevel = level, date = trim datum,
                                       time = trim uhrzeit,
                                       timestamp = parseGermanDateTime env datum uhrzeit,
                                       graphic = graphic_of (Grafik xmlDoc)\<rparr>)
                    | _ \<Rightarrow> Inl (Error ''Missing required fields in XML response'')))
      of Inl error \<Rightarrow> Inl (Error (''XML parsing failed: '' @ message error))
       | Inr data \<Rightarrow> Inr data)"

text \<open>
  The level format of the specification, \<^verbatim>\<open><integer>,<2-digit-fraction>\<close>: one or more
  digits, a comma, two digits, and nothing else. For such a string \<open>D,FF\<close> the exact
  value of \<open>D.FF * 100\<close> is the integer \<open>100 * D + FF\<close>.
\<close>

definition is_german_decimal :: "string \<Rightarrow> bool" where
  "is_german_decimal s =
     (takeWhile isDigit s \<noteq> [] \<and>
      (case dropWhile isDigit s of
         [] \<Rightarrow> False
       | c # fraction \<Rightarrow> c = CHR '','' \<and> length fraction = 2 \<and> list_all isDigit fraction))"

definition german_decimal_cm :: "string \<Rightarrow> nat" where
  "german_decimal_cm s =
     100 * digits_value (takeWhile isDigit s) + digits_value (tl (dropWhile isDigit s))"

text \<open>
  Whether a string begins with a decimal literal as \<^verbatim>\<open>parseFloat\<close> reads one: an
  optional sign, then \<^verbatim>\<open>Infinity\<close>, a digit, or a point followed by a digit.
\<close>

definition numeric_prefix :: "string \<Rightarrow> bool" where
  "numeric_prefix t =
     (let u = (case t of [] \<Rightarrow> t | c # r \<Rightarrow> if c = CHR ''-'' \<or> c = CHR ''+'' then r else t)
      in prefix ''Infinity'' u \<or>
         (case u of
            [] \<Rightarrow> False
          | c # r \<Rightarrow> isDigit c \<or> (c = CHR ''.'' \<and> (case r of [] \<Rightarrow> False | d # _ \<Rightarrow> isDigit d))))"

text \<open>Sample data: a response with the three required elements and no graphic, and a
  browser whose parser yields a given document, whose clock reads a fixed time, and
  whose calendar is a simple stand-in for local time.\<close>

definition sample_document :: "string \<Rightarrow> string \<Rightarrow> string \<Rightarrow> xml_document" where
  "sample_document datum uhrzeit pegel =
     \<lparr>parsererror = None, Datum = Some datum, Uhrzeit = Some uhrzeit, Pegel = Some pegel,
      Grafik = None\<rparr>"

fun sample_getTime :: "nat \<Rightarrow> month_value \<Rightarrow> nat \<Rightarrow> nat \<Rightarrow> nat \<Rightarrow> int" where
  "sample_getTime year (MonthIndex month) day hours minutes =
     int (((((year * 12 + month) * 31 + day) * 24 + hours) * 60 + minutes) * 60000)"
| "sample_getTime year Inherited day hours minutes = 0"

definition sample_browser :: "xml_document \<Rightarrow> browser" where
  "sample_browser doc =
     \<lparr>parseFromString = (\<lambda>xmlString. doc), Date_now = 1761575100000,
      Date_getTime = sample_getTime,
      fetch = (\<lambda>attempt url. Rejected (Error ''Failed to fetch''))\<rparr>"

text \<open>A response without a \<^verbatim>\<open>Pegel\<close> element.\<close>

definition document_without_pegel :: xml_document where
  "document_without_pegel =
     \<lparr>parsererror = None, Datum = Some ''27. Oktober 2025'', Uhrzeit = Some ''15:25'',
      Pegel = None, Grafik = None\<rparr>"

section \<open>The fetch client (api.js)\<close>

text \<open>The fields of a \<^verbatim>\<open>RheinPegelAPI\<close> object, and the object its constructor builds
  for a given URL.\<close>

record client =
  apiUrl :: string
  timeout :: nat
  maxRetries :: nat
  retryDelay :: nat
  useCorsProxy :: bool
  corsProxyUrl :: string

definition new_client :: "string \<Rightarrow> client" where
  "new_client url =
     \<lparr>apiUrl = url, timeout = 10000, maxRetries = 3, retryDelay = 1000,
      useCorsProxy = False, corsProxyUrl = ''https://cors-anywhere.herokuapp.com/''\<rparr>"

definition isCorsError :: "jserror \<Rightarrow> bool" where
  "isCorsError error =
     (includes_str ''CORS'' (message error) \<or>
      includes_str ''Network request failed'' (message error) \<or>
      name error = ''TypeError'' \<and> includes_str ''Failed to fetch'' (message error))"

definition enableCorsProxy :: "client \<Rightarrow> string option \<Rightarrow> client" where
  "enableCorsProxy c proxyUrl =
     (case proxyUrl of
        None \<Rightarrow> c\<lparr>useCorsProxy := True\<rparr>
      | Some url \<Rightarrow>
          if url = [] then c\<lparr>useCorsProxy := True\<rparr>
          else c\<lparr>useCorsProxy := True, corsProxyUrl := url\<rparr>)"

definition disableCorsProxy :: "client \<Rightarrow> client" where
  "disableCorsProxy c = c\<lparr>useCorsProxy := False\<rparr>"

text \<open>What the loop of \<^verbatim>\<open>fetchCurrentLevel\<close> does outside the client: the requests it
  sends and the delays it waits for, in order.\<close>

datatype event = Requested string | Waited nat

definition request_url :: "client \<Rightarrow> string" where
  "request_url c = (if useCorsProxy c then corsProxyUrl c @ apiUrl c else apiUrl c)"

text \<open>
  The body of the \<^verbatim>\<open>try\<close> block of one attempt. \<open>fetch env attempt url\<close> is what
  the transport does with the request of that attempt: it rejects (a network error, a
  refusal for the origin, the abort after the timeout), or it answers with \<^verbatim>\<open>ok\<close>,
  a status and a body whose text can be read or not.
\<close>

definition try_fetch :: "browser \<Rightarrow> nat \<Rightarrow> string \<Rightarrow> jserror + reading" where
  "try_fetch env attempt url =
     (case fetch env attempt url of
        Rejected error \<Rightarrow> Inl error
      | Response ok status body \<Rightarrow>
          if \<not> ok then Inl (Error (''HTTP error! status: '' @ show_nat status))
          else (case body of
                  Inl error \<Rightarrow> Inl error
                | Inr xmlText \<Rightarrow> parseXMLResponse env xmlText))"

text \<open>The \<^verbatim>\<open>catch\<close> block: the switch to the proxy, and the delay before the next
  attempt.\<close>

definition latch :: "client \<Rightarrow> jserror \<Rightarrow> nat \<Rightarrow> client" where
  "latch c error attempt =
     (if isCorsError error \<and> \<not> useCorsProxy c \<and> attempt = 1
      then c\<lparr>useCorsProxy := True\<rparr> else c)"

definition backoff :: "client \<Rightarrow> nat \<Rightarrow> event list" where
  "backoff c attempt =
     (if attempt < maxRetries c then [Waited (retryDelay c * attempt)] else [])"

text \<open>The error after the loop. With no attempt made there is no last error, and
  reading its message throws a \<^verbatim>\<open>TypeError\<close>.\<close>

definition exhausted :: "client \<Rightarrow> jserror option \<Rightarrow> jserror" where
  "exhausted c lastError =
     (case lastError of
        Some error \<Rightarrow>
          Error (''Failed to fetch data after '' @ show_nat (maxRetries c) @ '' attempts: ''
                 @ message error)
      | None \<Rightarrow> \<lparr>name = ''TypeError'', message = ''Cannot read properties of null''\<rparr>)"

text \<open>The loop from attempt number \<open>attempt\<close> on: the result, the client afterwards and
  the events.\<close>

function fetch_loop ::
  "browser \<Rightarrow> client \<Rightarrow> nat \<Rightarrow> jserror option \<Rightarrow> event list
     \<Rightarrow> (jserror + reading) \<times> client \<times> event list" where
  "fetch_loop env c attempt lastError trace =
     (if attempt \<le> maxRetries c then
        (case try_fetch env attempt (request_url c) of
           Inr data \<Rightarrow> (Inr data, c, trace @ [Requested (request_url c)])
         | Inl error \<Rightarrow>
             fetch_loop env (latch c error attempt) (attempt + 1) (Some error)
               (trace @ [Requested (request_url c)] @ backoff c attempt))
      else (Inl (exhausted c lastError), c, trace))"
  by pat_completeness auto
termination
  by (relation "measure (\<lambda>(env, c, attempt, lastError, trace). maxRetries c + 1 - attempt)")
    (auto simp: latch_def)

declare fetch_loop.simps [simp del]

definition fetchCurrentLevel :: "browser \<Rightarrow> client \<Rightarrow> (jserror + reading) \<times> client \<times> event list" where
  "fetchCurrentLevel env c = fetch_loop env c 1 None []"

definition requests :: "event list \<Rightarrow> string list" where
  "requests trace = concat (map (\<lambda>e. case e of Requested url \<Rightarrow> [url] | Waited ms \<Rightarrow> []) trace)"

text \<open>Sample data: a transport that refuses the first two attempts as a browser reports
  a refusal for the origin, and answers the third one if it comes through the proxy;
  the client of the constructor for the public URL.\<close>

definition flaky_fetch :: "nat \<Rightarrow> string \<Rightarrow> fetch_outcome" where
  "flaky_fetch attempt url =
     (if attempt = 3 \<and> prefix ''https://cors-anywhere.herokuapp.com/'' url
      then Response True 200 (Inr ''<Hochwasserpegel/>'')
      else Rejected \<lparr>name = ''TypeError'', message = ''Failed to fetch''\<rparr>)"

definition flaky_browser :: browser where
  "flaky_browser =
     sample_browser (sample_document ''27. Oktober 2025'' ''15:25'' ''3,68'')\<lparr>fetch := flaky_fetch\<rparr>"

definition cologne_client :: client where
  "cologne_client = new_client ''https://www.stadt-koeln.de/interne-dienste/hochwasser/pegel_ws.php''"

section \<open>Properties of the classifier\<close>

text \<open>
  Claim C1. The classifier is total on numeric levels: a finite level \<open>L\<close> is classified
  NORMAL exactly when \<open>L < 400\<close>, WARNING exactly when \<open>400 \<le> L < 800\<close> and DANGER exactly
  when \<open>L \<ge> 800\<close>; the infinite levels fall into NORMAL (\<open>-\<infinity>\<close>) and DANGER (\<open>+\<infinity>\<close>); and
  399, 400 and 800 are classified NORMAL, WARNING and DANGER.
\<close>

theorem getAlertLevel_classifies:
  "(getAlertLevel (Num L) = ALERT_LEVELS NORMAL \<longleftrightarrow> L < 400) \<and>
   (getAlertLevel (Num L) = ALERT_LEVELS WARNING \<longleftrightarrow> 400 \<le> L \<and> L < 800) \<and>
   (getAlertLevel (Num L) = ALERT_LEVELS DANGER \<longleftrightarrow> 800 \<le> L) \<and>
   getAlertLevel NegInf = ALERT_LEVELS NORMAL \<and>
   getAlertLevel PosInf = ALERT_LEVELS DANGER \<and>
   getAlertLevel (Num 399) = ALERT_LEVELS NORMAL \<and>
   getAlertLevel (Num 400) = ALERT_LEVELS WARNING \<and>
   getAlertLevel (Num 800) = ALERT_LEVELS DANGER"
  by (simp add: getAlertLevel_def)

section \<open>The bounded history store\<close>

lemma newest_first_sort: "newest_first (sort_newest_first rs)"
proof -
  have "sorted (map (\<lambda>r. - timestamp r) (sort_key (\<lambda>r. - timestamp r) rs))"
    by (rule sorted_sort_key)
  then show ?thesis
    by (simp add: newest_first_def sort_newest_first_def sorted_map)
qed

lemma newest_first_take: "newest_first rs \<Longrightarrow> newest_first (take n rs)"
  unfolding newest_first_def by (rule sorted_wrt_take)

lemma newest_first_filter: "newest_first rs \<Longrightarrow> newest_first (filter P rs)"
  unfolding newest_first_def by (rule sorted_wrt_filter)

lemma insertReading_ok:
  "length (readings (insertReading now st d)) \<le> maxEntries \<and>
   newest_first (readings (insertReading now st d))"
  by (simp add: insertReading_def Let_def newest_first_sort newest_first_take)

lemma insertReading_version: "version (insertReading now st d) = version st"
  by (simp add: insertReading_def Let_def)

lemma getStorageData_version: "version (getStorageData slot) = VString this_version"
  by (cases slot) (simp_all add: createEmptyStorage_def)

lemma setStorageData_Inr:
  assumes "setStorageData env data = Inr slot'"
  shows "\<exists>n. slot' = Parsed (data\<lparr>readings := take n (readings data)\<rparr>)"
proof (cases "setItem env data")
  case Written
  with assms have "slot' = Parsed data" by (simp add: setStorageData_def)
  then have "slot' = Parsed (data\<lparr>readings := take (length (readings data)) (readings data)\<rparr>)"
    by simp
  then show ?thesis by blast
next
  case (Throws e)
  with assms show ?thesis
    by (auto simp: setStorageData_def Let_def split: if_splits set_outcome.splits)
qed

lemma store_ok_Parsed_take:
  assumes "version data = VString this_version"
    and "length (readings data) \<le> maxEntries" and "newest_first (readings data)"
  shows "store_ok (Parsed (data\<lparr>readings := take n (readings data)\<rparr>))"
  using assms by (simp add: store_ok_def newest_first_take)

lemma store_ok_setStorageData:
  assumes "setStorageData env data = Inr slot'"
    and "version data = VString this_version"
    and "length (readings data) \<le> maxEntries" and "newest_first (readings data)"
  shows "store_ok slot'"
  using setStorageData_Inr [OF assms(1)] store_ok_Parsed_take [OF assms(2-4)] by auto

lemma store_ok_cleanOldData: "store_ok slot \<Longrightarrow> store_ok (cleanOldData env now slot)"
proof -
  assume ok: "store_ok slot"
  let ?st = "getStorageData slot"
  let ?st' = "?st\<lparr>readings := filter (\<lambda>reading. timestamp reading \<ge> now - maxAge) (readings ?st)\<rparr>"
  show ?thesis
  proof (cases "setStorageData env ?st'")
    case (Inl e)
    then show ?thesis using ok by (simp add: cleanOldData_def Let_def)
  next
    case (Inr s)
    have "store_ok s"
    proof (rule store_ok_setStorageData [OF Inr])
      show "version ?st' = VString this_version" by (simp add: getStorageData_version)
      show "length (readings ?st') \<le> maxEntries"
        using ok by (simp add: store_ok_def le_trans [OF length_filter_le])
      show "newest_first (readings ?st')"
        using ok by (simp add: store_ok_def newest_first_filter)
    qed
    with Inr show ?thesis by (simp add: cleanOldData_def Let_def)
  qed
qed

lemma saveReading_True_ok:
  assumes "saveReading env now now' slot d = (True, slot')"
  shows "store_ok slot'"
proof (cases "setStorageData env (insertReading now (getStorageData slot) d)")
  case (Inl e)
  with assms show ?thesis by (simp add: saveReading_def Let_def)
next
  case (Inr s)
  have "store_ok s"
    by (rule store_ok_setStorageData [OF Inr])
      (simp_all add: insertReading_version getStorageData_version insertReading_ok)
  with Inr assms show ?thesis
    by (auto simp: saveReading_def Let_def store_ok_cleanOldData)
qed

lemma saveReading_False_same:
  assumes "saveReading env now now' slot d = (False, slot')"
  shows "slot' = slot"
  using assms by (auto simp: saveReading_def Let_def split: sum.splits)

lemma store_ok_saveReading:
  "store_ok slot \<Longrightarrow> store_ok (snd (saveReading env now now' slot d))"
  by (cases "saveReading env now now' slot d")
    (metis (full_types) saveReading_True_ok saveReading_False_same snd_conv)

lemma store_ok_saveReadings:
  "store_ok slot \<Longrightarrow> store_ok (saveReadings env slot calls)"
  by (induction calls arbitrary: slot) (auto simp: store_ok_saveReading)


lemma setStorageData_mset:
  assumes "setStorageData env data = Inr slot'"
  shows "mset (readings (getStorageData slot')) \<subseteq># mset (readings data)"
proof -
  obtain n where s: "slot' = Parsed (data\<lparr>readings := take n (readings data)\<rparr>)"
    using setStorageData_Inr [OF assms] by blast
  have "mset (take n (readings data)) \<subseteq># mset (readings data)"
    by (metis append_take_drop_id mset_append mset_subset_eq_add_left)
  then show ?thesis
    by (simp add: s createEmptyStorage_def)
qed

lemma cleanOldData_mset:
  "mset (readings (getStorageData (cleanOldData env now slot))) \<subseteq>#
   mset (readings (getStorageData slot))"
proof -
  let ?st = "getStorageData slot"
  let ?st' = "?st\<lparr>readings := filter (\<lambda>reading. timestamp reading \<ge> now - maxAge) (readings ?st)\<rparr>"
  show ?thesis
  proof (cases "setStorageData env ?st'")
    case (Inl e)
    then show ?thesis by (simp add: cleanOldData_def Let_def)
  next
    case (Inr s)
    have "mset (readings (getStorageData s)) \<subseteq># mset (readings ?st')"
      by (rule setStorageData_mset [OF Inr])
    also have "\<dots> \<subseteq># mset (readings ?st)"
      by simp
    finally show ?thesis using Inr by (simp add: cleanOldData_def Let_def)
  qed
qed

lemma saveReading_mset:
  assumes "fst (saveReading env now now' slot d)"
  shows "mset (readings (getStorageData (snd (saveReading env now now' slot d)))) \<subseteq>#
         mset (readings (insertReading now (getStorageData slot) d))"
proof (cases "setStorageData env (insertReading now (getStorageData slot) d)")
  case (Inl e)
  with assms show ?thesis by (simp add: saveReading_def Let_def)
next
  case (Inr s)
  have "mset (readings (getStorageData (cleanOldData env now' s))) \<subseteq># mset (readings (getStorageData s))"
    by (rule cleanOldData_mset)
  also have "\<dots> \<subseteq># mset (readings (insertReading now (getStorageData slot) d))"
    by (rule setStorageData_mset [OF Inr])
  finally show ?thesis using Inr by (simp add: saveReading_def Let_def)
qed

lemma newest_first_last:
  assumes "newest_first rs" and "rs \<noteq> []" and "y \<in> set rs"
  shows "timestamp (last rs) \<le> timestamp y"
proof -
  obtain i where i: "i < length rs" "rs ! i = y"
    using assms(3) by (auto simp: in_set_conv_nth)
  show ?thesis
  proof (cases "i = length rs - 1")
    case True
    then show ?thesis using i assms(2) by (simp add: last_conv_nth)
  next
    case False
    then have "i < length rs - 1" using i by simp
    then have "timestamp (rs ! (length rs - 1)) \<le> timestamp (rs ! i)"
      using assms(1,2) by (simp add: newest_first_def sorted_wrt_iff_nth_less)
    then show ?thesis using i assms(2) by (simp add: last_conv_nth)
  qed
qed

lemma insertReading_full:
  assumes "length (readings st) = maxEntries"
  shows "readings (insertReading now st d) =
         butlast (sort_newest_first (readings st @ [stored_entry d]))"
proof -
  have "length (sort_newest_first (readings st @ [stored_entry d])) = Suc maxEntries"
    using assms by (simp add: sort_newest_first_def)
  then show ?thesis
    by (simp add: insertReading_def Let_def butlast_conv_take)
qed

lemma insertReading_evicts_oldest:
  fixes st :: storage and d :: reading
  assumes "length (readings st) = maxEntries"
  defines "pushed \<equiv> readings st @ [stored_entry d]"
  defines "x \<equiv> last (sort_newest_first pushed)"
  shows "x \<in> set pushed" and "\<forall>y\<in>set pushed. timestamp x \<le> timestamp y"
    and "mset (readings (insertReading now st d)) = mset pushed - {#x#}"
proof -
  let ?L = "sort_newest_first pushed"
  have set_eq: "set ?L = set pushed" and mset_eq: "mset ?L = mset pushed"
    by (simp_all add: sort_newest_first_def pushed_def)
  have "length ?L = length pushed"
    by (simp add: sort_newest_first_def)
  then have ne: "?L \<noteq> []"
    by (auto simp: pushed_def)
  show "x \<in> set pushed"
    using ne set_eq last_in_set x_def by blast
  show "\<forall>y\<in>set pushed. timestamp x \<le> timestamp y"
    using newest_first_last [OF newest_first_sort ne] set_eq x_def by blast
  have "mset ?L = mset (butlast ?L) + {#x#}"
    using ne by (metis append_butlast_last_id mset_append mset.simps x_def
        add_mset_add_single mset_zero_iff_right)
  then have "mset (butlast ?L) = mset pushed - {#x#}"
    using mset_eq by (metis add_diff_cancel_right')
  then show "mset (readings (insertReading now st d)) = mset pushed - {#x#}"
    using insertReading_full [OF assms(1)] by (simp add: pushed_def)
qed

lemma newest_first_replicate: "newest_first (replicate n r)"
  by (induction n) (simp_all add: newest_first_def)

lemma accept_all_setStorageData: "setStorageData accept_all data = Inr (Parsed data)"
  by (simp add: setStorageData_def accept_all_def)

lemma store_ok_full_slot: "store_ok full_slot"
  by (simp add: store_ok_def full_slot_def this_version_def maxEntries_def newest_first_replicate)

lemma accept_all_saveReading_fst: "fst (saveReading accept_all now now' slot d)"
  by (simp add: saveReading_def Let_def accept_all_setStorageData)

lemma insertReading_readings:
  "readings (insertReading now st d) =
   take maxEntries (sort_newest_first (readings st @ [stored_entry d]))"
  by (simp add: insertReading_def Let_def)

lemma saveReading_writes_succeed:
  assumes "\<forall>data. setItem env data = Written"
  shows "saveReading env now now' slot d =
    (True, Parsed ((insertReading now (getStorageData slot) d)
       \<lparr>readings := filter (\<lambda>reading. timestamp reading \<ge> now' - maxAge)
          (readings (insertReading now (getStorageData slot) d))\<rparr>))"
proof -
  have w: "\<And>data. setStorageData env data = Inr (Parsed data)"
    using assms by (simp add: setStorageData_def)
  have v: "version (insertReading now (getStorageData slot) d) = VString this_version"
    by (simp add: insertReading_version getStorageData_version)
  show ?thesis
    by (simp add: saveReading_def cleanOldData_def Let_def w v)
qed

lemma saveReading_writes_succeed_readings:
  assumes "\<forall>data. setItem env data = Written"
  shows "readings (getStorageData (snd (saveReading env now now' slot d))) =
    filter (\<lambda>r. now' - 86400000 \<le> timestamp r)
      (take 1440 (sort_key (\<lambda>r. - timestamp r) (readings (getStorageData slot) @ [stored_entry d])))"
    and "lastUpdated (getStorageData (snd (saveReading env now now' slot d))) = Some now"
    and "fst (saveReading env now now' slot d)"
proof -
  have v: "version (insertReading now (getStorageData slot) d) = VString this_version"
    by (simp add: insertReading_version getStorageData_version)
  show "readings (getStorageData (snd (saveReading env now now' slot d))) =
    filter (\<lambda>r. now' - 86400000 \<le> timestamp r)
      (take 1440 (sort_key (\<lambda>r. - timestamp r) (readings (getStorageData slot) @ [stored_entry d])))"
    by (simp add: saveReading_writes_succeed [OF assms] v insertReading_readings
        maxAge_def maxEntries_def sort_newest_first_def)
  show "lastUpdated (getStorageData (snd (saveReading env now now' slot d))) = Some now"
    by (simp add: saveReading_writes_succeed [OF assms] v) (simp add: insertReading_def Let_def)
  show "fst (saveReading env now now' slot d)"
    by (simp add: saveReading_writes_succeed [OF assms])
qed

lemma saveReading_fresh:
  assumes w: "\<forall>data. setItem env data = Written"
    and fresh: "\<forall>r \<in> set (readings (getStorageData slot) @ [stored_entry d]).
      now' - 86400000 \<le> timestamp r"
  shows "readings (getStorageData (snd (saveReading env now now' slot d))) =
     readings (insertReading now (getStorageData slot) d)"
proof -
  let ?pushed = "readings (getStorageData slot) @ [stored_entry d]"
  let ?kept = "take 1440 (sort_key (\<lambda>r. - timestamp r) ?pushed)"
  have "set ?kept \<subseteq> set (sort_key (\<lambda>r. - timestamp r) ?pushed)"
    by (rule set_take_subset)
  then have "\<forall>r \<in> set ?kept. now' - 86400000 \<le> timestamp r"
    using fresh by auto
  then have "filter (\<lambda>r. now' - 86400000 \<le> timestamp r) ?kept = ?kept"
    by simp
  then show ?thesis
    by (simp only: saveReading_writes_succeed_readings(1) [OF w] insertReading_readings
        maxEntries_def sort_newest_first_def)
qed

lemma quota_exhausted_saveReading:
  "saveReading quota_exhausted now now' slot d = (False, slot)"
  by (simp add: saveReading_def setStorageData_def quota_exhausted_def Let_def)

text \<open>
  Claim C3. From a store that holds at most 1440 readings sorted newest first (a fresh or
  missing slot is one), any sequence of \<^verbatim>\<open>saveReading\<close> calls leaves at most 1440
  readings, sorted descending by timestamp; any \<^verbatim>\<open>saveReading\<close> that returns \<^verbatim>\<open>true\<close>
  leaves such a store whatever the slot held before, and one that returns \<^verbatim>\<open>false\<close>
  leaves the slot as it was. When the browser accepts the writes, the save returns
  \<^verbatim>\<open>true\<close> and the store afterwards holds exactly the stored readings and the new entry,
  sorted newest first, cut to the first 1440 and without those older than 24 hours,
  stamped with the time of the save. So, nothing being older than 24 hours, a store of
  fewer than 1440 readings gains the new entry and loses none, and a store of 1440
  readings loses exactly one entry \<open>x\<close>, whose timestamp is the oldest among the stored
  entries and the new one. Whatever the browser does with the writes, a successful save
  into 1440 readings leaves no more than that.
\<close>

theorem saveReading_bounded_sorted:
  "(store_ok slot \<longrightarrow>
      length (readings (getStorageData (saveReadings env slot calls))) \<le> 1440 \<and>
      sorted_wrt (\<lambda>a b. timestamp a \<ge> timestamp b)
        (readings (getStorageData (saveReadings env slot calls)))) \<and>
   (fst (saveReading env now now' slot d) \<longrightarrow>
      store_ok (snd (saveReading env now now' slot d))) \<and>
   (length (readings (getStorageData slot)) = 1440 \<and> fst (saveReading env now now' slot d) \<longrightarrow>
      (\<exists>x \<in> set (readings (getStorageData slot) @ [stored_entry d]).
         (\<forall>y \<in> set (readings (getStorageData slot) @ [stored_entry d]).
            timestamp x \<le> timestamp y) \<and>
         mset (readings (getStorageData (snd (saveReading env now now' slot d)))) \<subseteq>#
           mset (readings (getStorageData slot) @ [stored_entry d]) - {#x#})) \<and>
   (\<not> fst (saveReading env now now' slot d) \<longrightarrow> snd (saveReading env now now' slot d) = slot) \<and>
   ((\<forall>data. setItem env data = Written) \<longrightarrow>
      fst (saveReading env now now' slot d) \<and>
      readings (getStorageData (snd (saveReading env now now' slot d))) =
        filter (\<lambda>r. now' - 86400000 \<le> timestamp r)
          (take 1440 (sort_key (\<lambda>r. - timestamp r)
             (readings (getStorageData slot) @ [stored_entry d]))) \<and>
      lastUpdated (getStorageData (snd (saveReading env now now' slot d))) = Some now) \<and>
   ((\<forall>data. setItem env data = Written) \<and>
    (\<forall>r \<in> set (readings (getStorageData slot) @ [stored_entry d]).
        now' - 86400000 \<le> timestamp r) \<longrightarrow>
      (length (readings (getStorageData slot)) < 1440 \<longrightarrow>
         mset (readings (getStorageData (snd (saveReading env now now' slot d)))) =
           mset (readings (getStorageData slot) @ [stored_entry d])) \<and>
      (length (readings (getStorageData slot)) = 1440 \<longrightarrow>
         (\<exists>x \<in> set (readings (getStorageData slot) @ [stored_entry d]).
            (\<forall>y \<in> set (readings (getStorageData slot) @ [stored_entry d]).
               timestamp x \<le> timestamp y) \<and>
            mset (readings (getStorageData (snd (saveReading env now now' slot d)))) =
              mset (readings (getStorageData slot) @ [stored_entry d]) - {#x#})))"
proof (intro conjI impI)
  assume "store_ok slot"
  then have "store_ok (saveReadings env slot calls)"
    by (rule store_ok_saveReadings)
  then show "length (readings (getStorageData (saveReadings env slot calls))) \<le> 1440"
    and "sorted_wrt (\<lambda>a b. timestamp a \<ge> timestamp b)
        (readings (getStorageData (saveReadings env slot calls)))"
    by (simp_all add: store_ok_def maxEntries_def newest_first_def)
next
  assume "fst (saveReading env now now' slot d)"
  then show "store_ok (snd (saveReading env now now' slot d))"
    by (metis saveReading_True_ok prod.collapse)
next
  assume a: "length (readings (getStorageData slot)) = 1440 \<and> fst (saveReading env now now' slot d)"
  let ?st = "getStorageData slot"
  let ?pushed = "readings ?st @ [stored_entry d]"
  let ?x = "last (sort_newest_first ?pushed)"
  have full: "length (readings ?st) = maxEntries"
    using a by (simp add: maxEntries_def)
  have "mset (readings (getStorageData (snd (saveReading env now now' slot d)))) \<subseteq>#
      mset ?pushed - {#?x#}"
    using saveReading_mset [of env now now' slot d] a
      insertReading_evicts_oldest(3) [OF full, of now d] by simp
  then show "\<exists>x \<in> set ?pushed. (\<forall>y \<in> set ?pushed. timestamp x \<le> timestamp y) \<and>
         mset (readings (getStorageData (snd (saveReading env now now' slot d)))) \<subseteq>#
           mset ?pushed - {#x#}"
    using insertReading_evicts_oldest(1,2) [OF full, of d] by blast
next
  assume "\<not> fst (saveReading env now now' slot d)"
  then show "snd (saveReading env now now' slot d) = slot"
    by (metis (full_types) saveReading_False_same prod.collapse)
next
  assume w: "\<forall>data. setItem env data = Written"
  show "fst (saveReading env now now' slot d)"
    by (rule saveReading_writes_succeed_readings(3) [OF w])
  show "readings (getStorageData (snd (saveReading env now now' slot d))) =
        filter (\<lambda>r. now' - 86400000 \<le> timestamp r)
          (take 1440 (sort_key (\<lambda>r. - timestamp r)
             (readings (getStorageData slot) @ [stored_entry d])))"
    by (rule saveReading_writes_succeed_readings(1) [OF w])
  show "lastUpdated (getStorageData (snd (saveReading env now now' slot d))) = Some now"
    by (rule saveReading_writes_succeed_readings(2) [OF w])
next
  assume a: "(\<forall>data. setItem env data = Written) \<and>
    (\<forall>r \<in> set (readings (getStorageData slot) @ [stored_entry d]).
        now' - 86400000 \<le> timestamp r)"
    and few: "length (readings (getStorageData slot)) < 1440"
  have eq: "readings (getStorageData (snd (saveReading env now now' slot d))) =
     readings (insertReading now (getStorageData slot) d)"
    using a by (intro saveReading_fresh) simp_all
  show "mset (readings (getStorageData (snd (saveReading env now now' slot d)))) =
           mset (readings (getStorageData slot) @ [stored_entry d])"
    using few by (simp add: eq insertReading_readings maxEntries_def sort_newest_first_def)
next
  assume a: "(\<forall>data. setItem env data = Written) \<and>
    (\<forall>r \<in> set (readings (getStorageData slot) @ [stored_entry d]).
        now' - 86400000 \<le> timestamp r)"
    and len: "length (readings (getStorageData slot)) = 1440"
  let ?pushed = "readings (getStorageData slot) @ [stored_entry d]"
  have eq: "readings (getStorageData (snd (saveReading env now now' slot d))) =
     readings (insertReading now (getStorageData slot) d)"
    using a by (intro saveReading_fresh) simp_all
  have full: "length (readings (getStorageData slot)) = maxEntries"
    using len by (simp add: maxEntries_def)
  show "\<exists>x \<in> set ?pushed. (\<forall>y \<in> set ?pushed. timestamp x \<le> timestamp y) \<and>
            mset (readings (getStorageData (snd (saveReading env now now' slot d)))) =
              mset ?pushed - {#x#}"
    unfolding eq
    using insertReading_evicts_oldest(1,2) [OF full, of d]
      insertReading_evicts_oldest(3) [OF full, of now d] by blast
qed

text \<open>The theorem at a full store and at a missing slot with a browser that accepts
  every write, and at a full store with a browser whose storage is full.\<close>

theorem saveReading_bounded_sorted_witness:
  "store_ok full_slot \<and>
   (\<forall>data. setItem accept_all data = Written) \<and>
   length (readings (getStorageData full_slot)) = 1440 \<and>
   list_all (\<lambda>r. 1000 - 86400000 \<le> timestamp r)
     (readings (getStorageData full_slot) @ [stored_entry reading_999]) \<and>
   fst (saveReading accept_all 1000 1000 full_slot reading_999) \<and>
   store_ok (snd (saveReading accept_all 1000 1000 full_slot reading_999)) \<and>
   length (readings (getStorageData
     (saveReadings accept_all full_slot [(1000, 1000, reading_999)]))) \<le> 1440 \<and>
   readings (getStorageData (snd (saveReading accept_all 1000 1000 full_slot reading_999))) =
     replicate 1440 (stored_entry reading_1000) \<and>
   length (readings (getStorageData NoItem)) < 1440 \<and>
   mset (readings (getStorageData (snd (saveReading accept_all 1000 1000 NoItem reading_1000)))) =
     {#stored_entry reading_1000#} \<and>
   \<not> fst (saveReading quota_exhausted 1000 1000 full_slot reading_999) \<and>
   snd (saveReading quota_exhausted 1000 1000 full_slot reading_999) = full_slot"
proof -
  let ?e = "stored_entry reading_1000"
  have h1: "store_ok full_slot"
    by (rule store_ok_full_slot)
  have h2: "\<forall>data. setItem accept_all data = Written"
    by (simp add: accept_all_def)
  have rs: "readings (getStorageData full_slot) = replicate 1440 ?e"
    by (simp add: full_slot_def this_version_def)
  have h3: "length (readings (getStorageData full_slot)) = 1440"
    by (simp add: rs)
  have h4: "\<forall>r \<in> set (readings (getStorageData full_slot) @ [stored_entry reading_999]).
      1000 - 86400000 \<le> timestamp r"
    by (simp add: rs stored_entry_def reading_1000_def reading_999_def)
  have srt: "sort_key (\<lambda>r. - timestamp r) (replicate 1440 ?e @ [stored_entry reading_999]) =
      replicate 1440 ?e @ [stored_entry reading_999]"
  proof (rule sort_key_id_if_sorted)
    have "sorted (replicate 1440 (- timestamp ?e))"
      by (rule sorted_replicate)
    then show "sorted (map (\<lambda>r. - timestamp r) (replicate 1440 ?e @ [stored_entry reading_999]))"
      unfolding map_append map_replicate sorted_append
      by (simp add: stored_entry_def reading_1000_def reading_999_def)
  qed
  have px: "1000 - 86400000 \<le> timestamp ?e"
    by (simp add: stored_entry_def reading_1000_def)
  have f: "saveReading quota_exhausted 1000 1000 full_slot reading_999 = (False, full_slot)"
    by (rule quota_exhausted_saveReading)
  have n: "readings (getStorageData NoItem) = []"
    by (simp add: createEmptyStorage_def)
  have h5: "\<forall>r \<in> set (readings (getStorageData NoItem) @ [stored_entry reading_1000]).
      1000 - 86400000 \<le> timestamp r"
    by (simp add: createEmptyStorage_def stored_entry_def reading_1000_def)
  note full = saveReading_bounded_sorted
      [of full_slot accept_all "[(1000, 1000, reading_999)]" 1000 1000 reading_999]
  note empty = saveReading_bounded_sorted
      [of NoItem accept_all "[]" 1000 1000 reading_1000]
  note failing = saveReading_bounded_sorted
      [of full_slot quota_exhausted "[]" 1000 1000 reading_999]
  have "readings (getStorageData (snd (saveReading accept_all 1000 1000 full_slot reading_999))) =
      filter (\<lambda>r. 1000 - 86400000 \<le> timestamp r)
        (take 1440 (sort_key (\<lambda>r. - timestamp r)
           (readings (getStorageData full_slot) @ [stored_entry reading_999])))"
    using full h2 by blast
  then have r1: "readings (getStorageData (snd (saveReading accept_all 1000 1000 full_slot reading_999))) =
     replicate 1440 ?e"
    using px by (simp add: rs srt)
  have "mset (readings (getStorageData (snd (saveReading accept_all 1000 1000 NoItem reading_1000)))) =
      mset (readings (getStorageData NoItem) @ [?e])"
    using empty h2 h5 by (simp add: createEmptyStorage_def)
  then have r2: "mset (readings (getStorageData (snd (saveReading accept_all 1000 1000 NoItem reading_1000)))) =
     {#?e#}"
    by (simp add: createEmptyStorage_def)
  have nf: "\<not> fst (saveReading quota_exhausted 1000 1000 full_slot reading_999)"
    by (simp add: f)
  have r3: "snd (saveReading quota_exhausted 1000 1000 full_slot reading_999) = full_slot"
    using failing nf by blast
  have s1: "store_ok (snd (saveReading accept_all 1000 1000 full_slot reading_999))"
    and s2: "fst (saveReading accept_all 1000 1000 full_slot reading_999)"
    and s3: "length (readings (getStorageData
        (saveReadings accept_all full_slot [(1000, 1000, reading_999)]))) \<le> 1440"
    using full h1 h2 by blast+
  have l4: "list_all (\<lambda>r. 1000 - 86400000 \<le> timestamp r)
     (readings (getStorageData full_slot) @ [stored_entry reading_999])"
    using h4 unfolding list_all_iff .
  have n': "length (readings (getStorageData NoItem)) < 1440"
    by (simp add: createEmptyStorage_def)
  show ?thesis
    using h1 h2 h3 l4 s2 s1 s3 r1 r2 nf r3 n' by (intro conjI)
qed

section \<open>Querying the history\<close>

lemma subset_add_mset_notin:
  assumes "A \<subseteq># add_mset e B" and "e \<notin># A"
  shows "A \<subseteq># B"
  unfolding subseteq_mset_def
proof
  fix a
  show "count A a \<le> count B a"
  proof (cases "a = e")
    case True
    then show ?thesis using assms(2) by (simp add: not_in_iff)
  next
    case False
    then show ?thesis using assms(1) mset_subset_eq_count [of A "add_mset e B" a] by simp
  qed
qed

lemma mset_take_subset: "mset (take n xs) \<subseteq># mset xs"
  by (metis append_take_drop_id mset_append mset_subset_eq_add_left)

lemma new_entry_survives:
  assumes few: "length (filter (\<lambda>r. timestamp r \<ge> timestamp e) rs) < n"
  shows "e \<in> set (take n (sort_newest_first (rs @ [e])))"
proof (rule ccontr)
  let ?L = "sort_newest_first (rs @ [e])"
  let ?P = "\<lambda>r. timestamp r \<ge> timestamp e"
  assume notin: "e \<notin> set (take n ?L)"
  have "e \<in> set ?L"
    by (simp add: sort_newest_first_def)
  moreover have "set (take n ?L) \<union> set (drop n ?L) = set ?L"
    using set_append [of "take n ?L" "drop n ?L"] by (simp only: append_take_drop_id)
  ultimately have "e \<in> set (take n ?L) \<union> set (drop n ?L)"
    by (simp only:)
  with notin have in_drop: "e \<in> set (drop n ?L)"
    by blast
  then have "drop n ?L \<noteq> []"
    by auto
  then have len: "length (take n ?L) = n"
    by simp
  have "sorted_wrt (\<lambda>a b. timestamp a \<ge> timestamp b) (take n ?L @ drop n ?L)"
    using newest_first_sort [of "rs @ [e]"] by (simp add: newest_first_def)
  then have "\<forall>x\<in>set (take n ?L). ?P x"
    using in_drop unfolding sorted_wrt_append by blast
  then have all: "filter ?P (take n ?L) = take n ?L"
    by simp
  have "mset (take n ?L) \<subseteq># mset ?L"
    by (rule mset_take_subset)
  then have "mset (take n ?L) \<subseteq># add_mset e (mset rs)"
    by (simp add: sort_newest_first_def)
  then have "mset (take n ?L) \<subseteq># mset rs"
    using notin by (rule_tac subset_add_mset_notin [of _ e]) simp_all
  then have "filter_mset ?P (mset (take n ?L)) \<subseteq># filter_mset ?P (mset rs)"
    by (rule multiset_filter_mono)
  then have "size (mset (filter ?P (take n ?L))) \<le> size (mset (filter ?P rs))"
    unfolding mset_filter by (rule size_mset_mono)
  then have "length (filter ?P (take n ?L)) \<le> length (filter ?P rs)"
    by (simp only: size_mset)
  then have "n \<le> length (filter ?P rs)"
    by (simp only: all len)
  with few show False
    by simp
qed

lemma insertReading_keeps_new:
  assumes "length (filter (\<lambda>r. timestamp r \<ge> timestamp d) (readings st)) < maxEntries"
  shows "stored_entry d \<in> set (readings (insertReading now st d))"
proof -
  let ?e = "stored_entry d"
  let ?L = "sort_newest_first (readings st @ [?e])"
  have ts: "timestamp ?e = timestamp d"
    by (simp add: stored_entry_def)
  have "?e \<in> set (take maxEntries ?L)"
    using assms new_entry_survives [of ?e "readings st" maxEntries] by (simp add: ts)
  moreover have "?e \<in> set ?L"
    by (simp add: sort_newest_first_def)
  ultimately show ?thesis
    by (simp add: insertReading_def Let_def)
qed

lemma hours_ms: "hours * 60 * 60 * 1000 = hours * (3600000::int)"
  by simp

lemma getHistoricalData_set:
  "set (getHistoricalData now slot hours) =
   {r \<in> set (readings (getStorageData slot)). timestamp r \<ge> now - hours * 3600000}"
  by (auto simp: getHistoricalData_def Let_def)

lemma sort_newest_first_sorted:
  "sorted (map (\<lambda>r. - timestamp r) rs) \<Longrightarrow> sort_newest_first rs = rs"
  by (simp add: sort_newest_first_def sort_key_id_if_sorted)

text \<open>
  Claim C4, as the code has it. \<^verbatim>\<open>getHistoricalData(hours)\<close> returns exactly the stored
  readings (with their multiplicities) whose timestamp is at least \<open>now - hours * 3600000\<close>,
  sorted ascending by timestamp. A reading just saved appears in
  \<^verbatim>\<open>getHistoricalData(24)\<close> when its timestamp is within the last 24 hours, the browser
  accepts the writes, the clock does not run backwards, and fewer than 1440 stored
  readings are at least as new as it (otherwise the truncation to 1440 entries drops it).
\<close>

theorem getHistoricalData_window:
  "mset (getHistoricalData now slot hours) =
     mset (filter (\<lambda>r. timestamp r \<ge> now - hours * 3600000) (readings (getStorageData slot))) \<and>
   sorted (map timestamp (getHistoricalData now slot hours)) \<and>
   ((\<forall>data. setItem env data = Written) \<and>
    length (filter (\<lambda>r. timestamp r \<ge> timestamp d) (readings (getStorageData slot))) < 1440 \<and>
    now2 \<le> now3 \<and> timestamp d \<ge> now3 - 24 * 3600000 \<longrightarrow>
    fst (saveReading env now1 now2 slot d) \<and>
    stored_entry d \<in> set (getHistoricalData now3 (snd (saveReading env now1 now2 slot d)) 24))"
proof (intro conjI impI)
  show "mset (getHistoricalData now slot hours) =
     mset (filter (\<lambda>r. timestamp r \<ge> now - hours * 3600000) (readings (getStorageData slot)))"
    by (simp only: getHistoricalData_def Let_def hours_ms mset_sort)
  show "sorted (map timestamp (getHistoricalData now slot hours))"
    by (simp add: getHistoricalData_def Let_def)
next
  assume a: "(\<forall>data. setItem env data = Written) \<and>
    length (filter (\<lambda>r. timestamp r \<ge> timestamp d) (readings (getStorageData slot))) < 1440 \<and>
    now2 \<le> now3 \<and> timestamp d \<ge> now3 - 24 * 3600000"
  let ?st = "insertReading now1 (getStorageData slot) d"
  let ?cl = "?st\<lparr>readings := filter (\<lambda>reading. timestamp reading \<ge> now2 - maxAge) (readings ?st)\<rparr>"
  have w: "\<And>data. setStorageData env data = Inr (Parsed data)"
    using a by (simp add: setStorageData_def)
  have v: "version ?st = VString this_version"
    by (simp add: insertReading_version getStorageData_version)
  have res: "saveReading env now1 now2 slot d = (True, Parsed ?cl)"
    by (simp add: saveReading_def cleanOldData_def Let_def w v)
  show "fst (saveReading env now1 now2 slot d)"
    by (simp add: res)
  have "stored_entry d \<in> set (readings ?st)"
    using a by (intro insertReading_keeps_new) (simp add: maxEntries_def)
  moreover have "timestamp (stored_entry d) \<ge> now2 - maxAge"
    using a by (simp add: stored_entry_def maxAge_def)
  ultimately have "stored_entry d \<in> set (readings (getStorageData (Parsed ?cl)))"
    by (simp add: v)
  moreover have "timestamp (stored_entry d) \<ge> now3 - 24 * 3600000"
    using a by (simp add: stored_entry_def)
  ultimately show "stored_entry d \<in> set (getHistoricalData now3 (snd (saveReading env now1 now2 slot d)) 24)"
    unfolding getHistoricalData_set res by simp
qed

text \<open>The theorem at an empty slot.\<close>

theorem getHistoricalData_window_witness:
  "(\<forall>data. setItem accept_all data = Written) \<and>
   length (filter (\<lambda>r. timestamp r \<ge> timestamp reading_1000) (readings (getStorageData NoItem))) < 1440 \<and>
   (1000::int) \<le> 2000 \<and> timestamp reading_1000 \<ge> 2000 - 24 * 3600000 \<and>
   stored_entry reading_1000 \<in> set (getHistoricalData 2000 (snd (saveReading accept_all 1000 1000 NoItem reading_1000)) 24)"
proof -
  have h: "(\<forall>data. setItem accept_all data = Written) \<and>
   length (filter (\<lambda>r. timestamp r \<ge> timestamp reading_1000) (readings (getStorageData NoItem))) < 1440 \<and>
   (1000::int) \<le> 2000 \<and> timestamp reading_1000 \<ge> 2000 - 24 * 3600000"
    by (simp add: accept_all_def createEmptyStorage_def reading_1000_def)
  show ?thesis
    using getHistoricalData_window [of 0 NoItem 24 accept_all reading_1000 1000 2000 1000] h
    by blast
qed

text \<open>
  The consequence of claim C4 as the claim states it fails: into a history of 1440
  readings stamped 1000 a reading stamped 999 is saved at time 1000. The save returns
  \<^verbatim>\<open>true\<close>, the timestamp is within the last 24 hours, and the reading is not among
  those that \<^verbatim>\<open>getHistoricalData(24)\<close> returns: the truncation has dropped it.
\<close>

theorem saved_reading_evicted_counterexample:
  "fst (saveReading accept_all 1000 1000 full_slot reading_999) \<and>
   timestamp reading_999 \<ge> 1000 - 24 * 3600000 \<and>
   stored_entry reading_999 \<notin>
     set (getHistoricalData 1000 (snd (saveReading accept_all 1000 1000 full_slot reading_999)) 24)"
proof -
  let ?e = "stored_entry reading_1000"
  let ?rs = "replicate 1440 ?e"
  have srt: "sort_newest_first (?rs @ [stored_entry reading_999]) = ?rs @ [stored_entry reading_999]"
  proof (rule sort_newest_first_sorted)
    have "sorted (replicate 1440 (- timestamp ?e))"
      by (rule sorted_replicate)
    then show "sorted (map (\<lambda>r. - timestamp r) (?rs @ [stored_entry reading_999]))"
      unfolding map_append map_replicate sorted_append
      by (simp add: stored_entry_def reading_1000_def reading_999_def)
  qed
  have ins: "readings (insertReading 1000 (getStorageData full_slot) reading_999) = ?rs"
    by (simp add: insertReading_def Let_def full_slot_def this_version_def srt maxEntries_def)
  have "set (readings (getStorageData (snd (saveReading accept_all 1000 1000 full_slot reading_999))))
      \<subseteq> set ?rs"
    using set_mset_mono [OF saveReading_mset [OF accept_all_saveReading_fst, of 1000 1000 full_slot reading_999]]
    by (simp add: ins)
  then have "set (getHistoricalData 1000 (snd (saveReading accept_all 1000 1000 full_slot reading_999)) 24)
      \<subseteq> {?e}"
    unfolding getHistoricalData_set by auto
  moreover have "stored_entry reading_999 \<noteq> ?e"
    by (simp add: stored_entry_def reading_1000_def reading_999_def)
  ultimately show ?thesis
    using accept_all_saveReading_fst [of 1000 1000 full_slot reading_999]
    by (auto simp: reading_999_def)
qed

section \<open>Loading the persisted structure\<close>

text \<open>
  Claim C9. A parsed blob whose \<^verbatim>\<open>version\<close> is anything but the string \<^verbatim>\<open>1.0.0\<close> (a
  different string, no version at all, a value of another type) loads as the empty
  structure: version \<^verbatim>\<open>1.0.0\<close>, no readings, \<^verbatim>\<open>lastUpdated\<close> null. So does a blob that
  cannot be parsed. \<^verbatim>\<open>getStorageData\<close> returns a structure in every case.
\<close>

theorem getStorageData_version_mismatch:
  "(version parsed \<noteq> VString ''1.0.0'' \<longrightarrow>
      getStorageData (Parsed parsed) =
        \<lparr>version = VString ''1.0.0'', readings = [], lastUpdated = None\<rparr>) \<and>
   getStorageData Malformed = \<lparr>version = VString ''1.0.0'', readings = [], lastUpdated = None\<rparr>"
  by (simp add: createEmptyStorage_def this_version_def)

text \<open>The theorem at a blob of version \<^verbatim>\<open>0.9.0\<close> that holds a reading.\<close>

theorem getStorageData_version_mismatch_witness:
  "version \<lparr>version = VString ''0.9.0'', readings = [reading_1000], lastUpdated = Some 1000\<rparr>
     \<noteq> VString ''1.0.0'' \<and>
   getStorageData old_version_slot =
     \<lparr>version = VString ''1.0.0'', readings = [], lastUpdated = None\<rparr>"
  using getStorageData_version_mismatch
    [of "\<lparr>version = VString ''0.9.0'', readings = [reading_1000], lastUpdated = Some 1000\<rparr>"]
  by (simp add: old_version_slot_def)

section \<open>The graphic of a reading is not persisted\<close>

lemma insertReading_set:
  "set (readings (insertReading now st d)) \<subseteq> insert (stored_entry d) (set (readings st))"
proof -
  have "set (take maxEntries (sort_newest_first (readings st @ [stored_entry d])))
      \<subseteq> set (sort_newest_first (readings st @ [stored_entry d]))"
    by (rule set_take_subset)
  then show ?thesis
    by (auto simp: insertReading_def Let_def sort_newest_first_def)
qed

lemma saveReading_set:
  "set (readings (getStorageData (snd (saveReading env now now' slot d)))) \<subseteq>
   insert (stored_entry d) (set (readings (getStorageData slot)))"
proof (cases "fst (saveReading env now now' slot d)")
  case True
  have "set (readings (getStorageData (snd (saveReading env now now' slot d)))) \<subseteq>
      set (readings (insertReading now (getStorageData slot) d))"
    using set_mset_mono [OF saveReading_mset [OF True]] by simp
  then show ?thesis
    using insertReading_set by blast
next
  case False
  then have "snd (saveReading env now now' slot d) = slot"
    by (metis saveReading_False_same prod.collapse)
  then show ?thesis by auto
qed

lemma no_graphic_saveReading:
  "no_graphic slot \<Longrightarrow> no_graphic (snd (saveReading env now now' slot d))"
  using saveReading_set [of env now now' slot d]
  by (auto simp: no_graphic_def stored_entry_def)

lemma no_graphic_saveReadings:
  "no_graphic slot \<Longrightarrow> no_graphic (saveReadings env slot calls)"
  by (induction calls arbitrary: slot) (auto simp: no_graphic_saveReading)

lemma stored_entry_graphic_update: "stored_entry (d\<lparr>graphic := g\<rparr>) = stored_entry d"
  by (simp add: stored_entry_def)

lemma getLatestReading_in_store:
  "getLatestReading slot = Some r \<Longrightarrow> r \<in> set (readings (getStorageData slot))"
  by (auto simp: getLatestReading_def Let_def split: if_splits)

lemma saveReading_NoItem_accept_all:
  "snd (saveReading accept_all 1000 1000 NoItem reading_1000) =
   Parsed \<lparr>version = VString ''1.0.0'', readings = [stored_entry reading_1000],
     lastUpdated = Some 1000\<rparr>"
  by (simp add: saveReading_def cleanOldData_def accept_all_setStorageData insertReading_def
      Let_def createEmptyStorage_def this_version_def sort_newest_first_def maxEntries_def
      stored_entry_def reading_1000_def maxAge_def)

text \<open>
  Claim C10. Saving a reading does not depend on its \<^verbatim>\<open>graphic\<close>; the entry pushed has
  the four properties \<^verbatim>\<open>waterLevel\<close>, \<^verbatim>\<open>date\<close>, \<^verbatim>\<open>time\<close>, \<^verbatim>\<open>timestamp\<close> of the reading and
  no \<^verbatim>\<open>graphic\<close>; every entry of the store after the save is that entry or was stored
  before; and when no stored entry has a \<^verbatim>\<open>graphic\<close>, then after any sequence of saves
  no entry returned by \<^verbatim>\<open>getHistoricalData\<close> or \<^verbatim>\<open>getLatestReading\<close> has one.
\<close>

theorem saveReading_drops_graphic:
  "saveReading env now now' slot (d\<lparr>graphic := g\<rparr>) = saveReading env now now' slot d \<and>
   stored_entry d = \<lparr>waterLevel = waterLevel d, date = date d, time = time d,
                     timestamp = timestamp d, graphic = Absent\<rparr> \<and>
   set (readings (getStorageData (snd (saveReading env now now' slot d)))) \<subseteq>
     insert (stored_entry d) (set (readings (getStorageData slot))) \<and>
   (no_graphic slot \<longrightarrow>
     (\<forall>r \<in> set (getHistoricalData t (saveReadings env slot calls) hours). graphic r = Absent) \<and>
     (\<forall>r. getLatestReading (saveReadings env slot calls) = Some r \<longrightarrow> graphic r = Absent))"
proof (intro conjI impI allI ballI)
  show "saveReading env now now' slot (d\<lparr>graphic := g\<rparr>) = saveReading env now now' slot d"
    by (simp add: saveReading_def insertReading_def stored_entry_graphic_update)
  show "stored_entry d = \<lparr>waterLevel = waterLevel d, date = date d, time = time d,
                     timestamp = timestamp d, graphic = Absent\<rparr>"
    by (simp add: stored_entry_def)
  show "set (readings (getStorageData (snd (saveReading env now now' slot d)))) \<subseteq>
     insert (stored_entry d) (set (readings (getStorageData slot)))"
    by (rule saveReading_set)
next
  fix r
  assume "no_graphic slot" and "r \<in> set (getHistoricalData t (saveReadings env slot calls) hours)"
  then show "graphic r = Absent"
    using no_graphic_saveReadings [of slot env calls]
    by (auto simp: no_graphic_def getHistoricalData_set)
next
  fix r
  assume "no_graphic slot" and "getLatestReading (saveReadings env slot calls) = Some r"
  then show "graphic r = Absent"
    using no_graphic_saveReadings [of slot env calls] getLatestReading_in_store
    by (auto simp: no_graphic_def)
qed

text \<open>The theorem at a missing slot and a reading with a graphic.\<close>

theorem saveReading_drops_graphic_witness:
  "no_graphic NoItem \<and> graphic reading_1000 = Str ''pegel.png'' \<and>
   getLatestReading (saveReadings accept_all NoItem [(1000, 1000, reading_1000)])
     = Some (stored_entry reading_1000) \<and>
   graphic (stored_entry reading_1000) = Absent"
proof -
  have h: "no_graphic NoItem"
    by (simp add: no_graphic_def createEmptyStorage_def)
  have l: "getLatestReading (saveReadings accept_all NoItem [(1000, 1000, reading_1000)])
     = Some (stored_entry reading_1000)"
    by (simp add: saveReading_NoItem_accept_all getLatestReading_def this_version_def)
  show ?thesis
    using saveReading_drops_graphic
      [where env = accept_all and slot = NoItem and calls = "[(1000, 1000, reading_1000)]"
        and d = reading_1000 and g = Null and now = 1000 and now' = 1000 and t = 0 and hours = 24]
      h l
    by (simp add: reading_1000_def)
qed

section \<open>Rounding to double precision\<close>

lemma powi_nat: "0 \<le> k \<Longrightarrow> (2::rat) powi k = 2 ^ nat k"
  by (simp add: power_int_def)

lemma bitlen_rat_bounds:
  assumes "0 < p"
  shows "(2::rat) powi (bitlen p - 1) \<le> of_int p" and "of_int p < (2::rat) powi (bitlen p)"
proof -
  have b1: "1 \<le> bitlen p"
    using assms by (simp add: bitlen_alt_def)
  have "2 ^ nat (bitlen p - 1) \<le> p" and "p < 2 ^ nat (bitlen p)"
    using bitlen_bounds [OF assms] by simp_all
  then have "(of_int (2 ^ nat (bitlen p - 1)) :: rat) \<le> of_int p"
    and "(of_int p :: rat) < of_int (2 ^ nat (bitlen p))"
    by (simp_all only: of_int_le_iff of_int_less_iff)
  then show "(2::rat) powi (bitlen p - 1) \<le> of_int p" and "of_int p < (2::rat) powi (bitlen p)"
    using b1 by (simp_all add: powi_nat)
qed

lemma binade_bounds:
  assumes "0 < x"
  shows "2 powi (binade x) \<le> x \<and> x < 2 powi (binade x + 1)"
proof -
  obtain p q where pq: "quotient_of x = (p, q)"
    by (cases "quotient_of x")
  have q: "0 < q"
    using pq quotient_of_denom_pos by blast
  have x: "x = of_int p / of_int q"
    using pq by (rule quotient_of_div)
  have p: "0 < p"
    using assms q x by (simp add: zero_less_divide_iff)
  let ?k = "bitlen p - bitlen q"
  have qr: "0 < (of_int q :: rat)" using q by simp
  have up: "x < 2 powi (?k + 1)"
  proof -
    have "of_int p < (2::rat) powi (bitlen p)"
      by (rule bitlen_rat_bounds(2) [OF p])
    also have "\<dots> = 2 powi (?k + 1) * 2 powi (bitlen q - 1)"
      by (simp flip: power_int_add)
    also have "\<dots> \<le> 2 powi (?k + 1) * of_int q"
      using bitlen_rat_bounds(1) [OF q] by (intro mult_left_mono) simp_all
    finally show ?thesis
      using qr by (simp add: x pos_divide_less_eq)
  qed
  have lo: "2 powi (?k - 1) \<le> x"
  proof -
    have "2 powi (?k - 1) * of_int q \<le> 2 powi (?k - 1) * (2::rat) powi (bitlen q)"
      using bitlen_rat_bounds(2) [OF q] by (intro mult_left_mono) simp_all
    also have "\<dots> = 2 powi (bitlen p - 1)"
      by (simp flip: power_int_add)
    also have "\<dots> \<le> of_int p"
      by (rule bitlen_rat_bounds(1) [OF p])
    finally show ?thesis
      using qr by (simp add: x pos_le_divide_eq)
  qed
  show ?thesis
  proof (cases "2 powi ?k \<le> x")
    case True
    then have "binade x = ?k" by (simp add: binade_def pq)
    then show ?thesis using True up by simp
  next
    case False
    then have "binade x = ?k - 1" by (simp add: binade_def pq)
    then show ?thesis using False lo by simp
  qed
qed

lemma round_half_even_err: "\<bar>of_int (round_half_even q) - q\<bar> \<le> 1 / 2"
proof -
  have "of_int \<lfloor>q\<rfloor> \<le> q" and "q < of_int \<lfloor>q\<rfloor> + 1"
    by linarith+
  then show ?thesis
    by (auto simp: round_half_even_def Let_def)
qed


lemma powi_less_cancel: "(2::rat) powi a < 2 powi b \<Longrightarrow> a < b"
proof (rule ccontr)
  assume lt: "(2::rat) powi a < 2 powi b" and "\<not> a < b"
  then have "b \<le> a" by simp
  then have "(2::rat) powi b \<le> 2 powi a"
    by (intro power_int_increasing) simp_all
  with lt show False by simp
qed

lemma round_double_normal:
  assumes lo: "2 powi (- 1022) \<le> x" and hi: "x < 2 powi 1023"
  shows "\<exists>r. round_double x = Num r \<and> \<bar>r - x\<bar> \<le> x / 2 ^ 53"
proof -
  have pos: "0 < x"
    using lo by (rule less_le_trans [rotated]) simp
  let ?e = "binade x"
  have b: "2 powi ?e \<le> x" "x < 2 powi (?e + 1)"
    using binade_bounds [OF pos] by simp_all
  have "(2::rat) powi (- 1022) < 2 powi (?e + 1)"
    using lo b(2) by (rule le_less_trans)
  then have e_lo: "- 1022 \<le> ?e"
    using powi_less_cancel [of "- 1022" "?e + 1"] by simp
  have "(2::rat) powi ?e < 2 powi 1023"
    using b(1) hi by (rule le_less_trans)
  then have e_hi: "?e < 1023"
    by (rule powi_less_cancel)
  let ?u = "(2::rat) powi (?e - 52)"
  let ?m = "round_half_even (x / ?u)"
  let ?r = "of_int ?m * ?u"
  have u: "0 < ?u" by simp
  have u53: "?u / 2 = 2 powi ?e / 2 ^ 53"
  proof -
    have "(2::rat) powi ((?e - 52) + 52) = 2 powi (?e - 52) * 2 powi 52"
      by (rule power_int_add) simp
    then show ?thesis by simp
  qed
  have "\<bar>?r - x\<bar> = \<bar>of_int ?m - x / ?u\<bar> * ?u"
  proof -
    have "?r - x = (of_int ?m - x / ?u) * ?u"
      using u by (simp add: field_simps)
    then show ?thesis
      using u by (simp add: abs_mult)
  qed
  also have "\<dots> \<le> 1 / 2 * ?u"
    using u round_half_even_err [of "x / ?u"] by (intro mult_right_mono) simp_all
  also have "\<dots> = 2 powi ?e / 2 ^ 53"
    using u53 by simp
  also have "\<dots> \<le> x / 2 ^ 53"
    using b(1) by (simp add: divide_right_mono)
  finally have err: "\<bar>?r - x\<bar> \<le> x / 2 ^ 53" .
  have "?r \<le> x + x / 2 ^ 53"
    using err by linarith
  also have "\<dots> \<le> 2 * x"
    using pos by simp
  also have "\<dots> < 2 * 2 powi 1023"
    using hi by simp
  also have "\<dots> = 2 powi 1024"
    by simp
  finally have no_ovf: "\<not> 2 powi 1024 \<le> ?r"
    by simp
  have "max ?e (- 1022) = ?e"
    using e_lo by simp
  then have "round_double x = Num ?r"
    using pos no_ovf by (simp add: round_double_def Let_def)
  with err show ?thesis by blast
qed

lemma round_double_not_NaN: "round_double x \<noteq> NaN"
  by (simp add: round_double_def Let_def)

lemma round_double_0: "round_double 0 = Num 0"
  by (simp add: round_double_def)


lemma centimeters_exact:
  fixes N :: nat
  assumes "N < 2 ^ 50"
  shows "Math_round (js_mul (round_double (of_nat N / 100)) (Num 100)) = Num (of_nat N)"
proof (cases "N = 0")
  case True
  have "\<lfloor>(1::rat) / 2\<rfloor> = 0"
    by (rule floor_unique) simp_all
  with True show ?thesis by (simp add: round_double_0)
next
  case False
  define n :: rat where "n = of_nat N"
  define c :: rat where "c = 2 ^ 53"
  have c_val: "c = 9007199254740992"
    by (simp add: c_def)
  have n1: "1 \<le> n"
    using False by (simp add: n_def Suc_le_eq)
  have "n < of_nat (2 ^ 50)"
    using assms unfolding n_def by (simp only: of_nat_less_iff)
  then have n2: "n < 1125899906842624"
    by simp
  have big: "(2251799813685248::rat) \<le> 2 powi 1023"
  proof -
    have "(2::rat) powi 51 \<le> 2 powi 1023"
      by (intro power_int_increasing) simp_all
    then show ?thesis by simp
  qed
  have small: "(2::rat) powi (- 1022) \<le> 1 / 128"
  proof -
    have "(2::rat) powi (- 1022) \<le> 2 powi (- 7)"
      by (intro power_int_increasing) simp_all
    then show ?thesis by (simp add: power_int_minus_divide)
  qed
  have x_lo: "2 powi (- 1022) \<le> n / 100"
    using small n1 by linarith
  have x_hi: "n / 100 < 2 powi 1023"
    using n1 n2 big by linarith
  obtain y1 where y1: "round_double (n / 100) = Num y1" "\<bar>y1 - n / 100\<bar> \<le> n / 100 / c"
    using round_double_normal [OF x_lo x_hi] unfolding c_def by blast
  define z where "z = y1 * 100"
  have "z - n = 100 * (y1 - n / 100)"
    by (simp add: z_def)
  then have "\<bar>z - n\<bar> = \<bar>100 * (y1 - n / 100)\<bar>"
    by (simp only:)
  also have "\<dots> = 100 * \<bar>y1 - n / 100\<bar>"
    by (simp only: abs_mult)
  also have "\<dots> \<le> 100 * (n / 100 / c)"
    using y1(2) by (intro mult_left_mono) simp_all
  also have "\<dots> = n / c"
    by simp
  finally have z_err: "\<bar>z - n\<bar> \<le> n / c" .
  have nc: "n / c \<le> n / 2"
    using n1 by (simp add: c_val)
  have z_lo': "1 / 2 \<le> z" and z_hi': "z \<le> 2 * n"
    using z_err nc n1 by (simp_all add: abs_le_iff)
  have z_lo: "2 powi (- 1022) \<le> z"
    using small z_lo' by linarith
  have z_hi: "z < 2 powi 1023"
    using z_hi' n2 big by linarith
  obtain y2 where y2: "round_double z = Num y2" "\<bar>y2 - z\<bar> \<le> z / c"
    using round_double_normal [OF z_lo z_hi] unfolding c_def by blast
  have "z / c \<le> 2 * n / c"
    using z_hi' by (simp add: c_val)
  then have "\<bar>y2 - n\<bar> \<le> 2 * n / c + n / c"
    using y2(2) z_err by linarith
  also have "\<dots> = 3 * n / c"
    by simp
  also have "\<dots> < 3 * 1125899906842624 / c"
    using n2 by (simp add: c_val)
  also have "\<dots> = 3 / 8"
    by (simp add: c_val)
  finally have close: "\<bar>y2 - n\<bar> < 3 / 8" .
  have "\<lfloor>y2 + 1 / 2\<rfloor> = int N"
  proof (rule floor_unique)
    have nN: "of_int (int N) = n"
      by (simp add: n_def)
    show "of_int (int N) \<le> y2 + 1 / 2"
      unfolding nN using close by linarith
    show "y2 + 1 / 2 < of_int (int N) + 1"
      unfolding nN using close by linarith
  qed
  then show ?thesis
    using y1(1) y2(1) by (simp add: n_def z_def)
qed

section \<open>The numeric conversion\<close>

lemma isDigit_cases:
  "isDigit c \<longleftrightarrow> c = CHR ''0'' \<or> c = CHR ''1'' \<or> c = CHR ''2'' \<or> c = CHR ''3'' \<or> c = CHR ''4'' \<or>
     c = CHR ''5'' \<or> c = CHR ''6'' \<or> c = CHR ''7'' \<or> c = CHR ''8'' \<or> c = CHR ''9''"
  by (auto simp: isDigit_def)

lemma isDigit_not_special:
  assumes "isDigit c"
  shows "\<not> isWhiteSpace c" and "c \<noteq> CHR '',''" and "c \<noteq> CHR ''.''" and "c \<noteq> CHR ''-''"
    and "c \<noteq> CHR ''+''" and "c \<noteq> CHR ''I''"
  using assms by (auto simp: isDigit_cases isWhiteSpace_def)

lemma isNaN_iff: "isNaN x \<longleftrightarrow> x = NaN"
  by (cases x) simp_all

lemma german_decimal_split:
  assumes "is_german_decimal s"
  obtains D a b where "s = D @ CHR '','' # [a, b]" and "D \<noteq> []" and "\<forall>c\<in>set D. isDigit c"
    and "isDigit a" and "isDigit b"
    and "takeWhile isDigit s = D" and "dropWhile isDigit s = CHR '','' # [a, b]"
proof -
  let ?D = "takeWhile isDigit s"
  from assms obtain F where r: "dropWhile isDigit s = CHR '','' # F" and F: "length F = 2" "list_all isDigit F"
    and D: "?D \<noteq> []"
    by (auto simp: is_german_decimal_def split: list.splits)
  from F obtain a b where ab: "F = [a, b]"
    by (cases F; cases "tl F") auto
  have "s = ?D @ dropWhile isDigit s"
    by simp
  then have s: "s = ?D @ CHR '','' # [a, b]"
    using r ab by simp
  have "\<forall>c\<in>set ?D. isDigit c"
    by (auto dest: set_takeWhileD)
  moreover have "isDigit a" "isDigit b"
    using F(2) ab by simp_all
  ultimately show thesis
    using that [of ?D a b] s D r ab by simp
qed

lemma replace_comma_digits:
  "\<forall>c\<in>set D. isDigit c \<Longrightarrow> replace_comma (D @ CHR '','' # F) = D @ CHR ''.'' # F"
  by (induction D) (auto dest: isDigit_not_special(2))

lemma dropWhile_white_digit:
  assumes "D \<noteq> []" and "\<forall>c\<in>set D. isDigit c"
  shows "dropWhile isWhiteSpace (D @ r) = D @ r"
  using assms by (cases D) (auto dest: isDigit_not_special(1))

lemma trim_german_decimal:
  assumes "D \<noteq> []" and "\<forall>c\<in>set D. isDigit c" and "isDigit b"
  shows "trim (D @ c # [a, b]) = D @ c # [a, b]"
proof -
  have "dropWhile isWhiteSpace (D @ c # [a, b]) = D @ c # [a, b]"
    using assms(1,2) by (rule dropWhile_white_digit)
  moreover have "dropWhile isWhiteSpace (rev (D @ c # [a, b])) = rev (D @ c # [a, b])"
    using assms(3) by (simp add: isDigit_not_special(1))
  ultimately show ?thesis
    by (simp only: trim_def rev_rev_ident)
qed

lemma digits_value_append:
  "digits_value (xs @ ys) = foldl (\<lambda>a c. 10 * a + digit_value c) (digits_value xs) ys"
  by (simp add: digits_value_def)

lemma digits_value_append2:
  "digits_value (D @ [a, b]) = 100 * digits_value D + digits_value [a, b]"
  by (simp add: digits_value_append) (simp add: digits_value_def)

lemma unsigned_literal_point:
  assumes "D \<noteq> []" and "\<forall>c\<in>set D. isDigit c" and "isDigit a" and "isDigit b"
  shows "unsigned_literal (D @ CHR ''.'' # [a, b]) =
         Some (of_nat (digits_value (D @ [a, b])) / 100)"
proof -
  have nd: "\<not> isDigit CHR ''.''"
    by (simp add: isDigit_def)
  have tw: "takeWhile isDigit (D @ CHR ''.'' # [a, b]) = D"
    using assms(2) nd by (simp add: takeWhile_append2)
  have dw: "dropWhile isDigit (D @ CHR ''.'' # [a, b]) = CHR ''.'' # [a, b]"
    using assms(2) nd by (simp add: dropWhile_append2)
  have "(10::rat) powi (- 2) = 1 / 100"
    by (simp add: power_int_minus_divide)
  then show ?thesis
    using assms(1,3,4) by (simp add: unsigned_literal_def tw dw Let_def exponent_part_def)
qed

lemma parseFloat_point:
  assumes "D \<noteq> []" and "\<forall>c\<in>set D. isDigit c" and "isDigit a" and "isDigit b"
  shows "parseFloat (D @ CHR ''.'' # [a, b]) = round_double (of_nat (digits_value (D @ [a, b])) / 100)"
proof -
  obtain d D' where D: "D = d # D'" and d: "isDigit d"
    using assms(1,2) by (cases D) auto
  have dw: "dropWhile isWhiteSpace (D @ CHR ''.'' # [a, b]) = D @ CHR ''.'' # [a, b]"
    using assms(1,2) by (rule dropWhile_white_digit)
  have neq: "CHR ''I'' \<noteq> d" "d \<noteq> CHR ''-''" "d \<noteq> CHR ''+''"
    using isDigit_not_special [OF d] by auto
  show ?thesis
    unfolding parseFloat_def dw Let_def
    using unsigned_literal_point [OF assms]
    by (simp add: D neq)
qed

lemma convertGermanDecimal_valid:
  assumes "is_german_decimal s"
  shows "convertGermanDecimal s = Inr (spec_convert s)"
    and "spec_convert s =
         Math_round (js_mul (round_double (of_nat (german_decimal_cm s) / 100)) (Num 100))"
proof -
  obtain D a b where s: "s = D @ CHR '','' # [a, b]" and D: "D \<noteq> []" "\<forall>c\<in>set D. isDigit c"
    and ab: "isDigit a" "isDigit b"
    and tw: "takeWhile isDigit s = D" and dw: "dropWhile isDigit s = CHR '','' # [a, b]"
    using assms by (rule german_decimal_split)
  have t: "trim s = s"
    unfolding s using D ab(2) by (rule trim_german_decimal)
  have r: "replace_comma s = D @ CHR ''.'' # [a, b]"
    unfolding s using D(2) by (rule replace_comma_digits)
  have cm: "german_decimal_cm s = digits_value (D @ [a, b])"
    by (simp add: german_decimal_cm_def tw dw digits_value_append2)
  have pf: "parseFloat (replace_comma s) = round_double (of_nat (german_decimal_cm s) / 100)"
    unfolding r cm using D ab by (rule parseFloat_point)
  show "spec_convert s =
         Math_round (js_mul (round_double (of_nat (german_decimal_cm s) / 100)) (Num 100))"
    by (simp add: spec_convert_def pf)
  show "convertGermanDecimal s = Inr (spec_convert s)"
    by (simp add: convertGermanDecimal_def spec_convert_def t pf Let_def isNaN_iff round_double_not_NaN)
qed

lemma convertGermanDecimal_exact:
  assumes "is_german_decimal s" and "german_decimal_cm s = n" and "n < 2 ^ 50"
  shows "convertGermanDecimal s = Inr (Num (of_nat n))"
  using assms by (simp add: convertGermanDecimal_valid centimeters_exact)

text \<open>
  Claim C2. For every string \<open>D,FF\<close> of digits, a comma and two digits,
  \<^verbatim>\<open>convertGermanDecimal\<close> returns, without an error, the number the specification
  describes: the comma replaced by a point, parsed as a double, multiplied by 100 in
  double arithmetic, rounded to the nearest integer with a half going up. Whenever
  \<open>100 * D + FF\<close> is below \<open>2^50\<close> the two roundings to double precision do not show and
  the result is exactly \<open>100 * D + FF\<close>; so \<^verbatim>\<open>3,68\<close> gives 368 and \<^verbatim>\<open>0,00\<close> gives 0, and
  a value outside \<open>[0, 2000]\<close> such as that of \<^verbatim>\<open>25,00\<close> is returned.
\<close>

theorem convertGermanDecimal_rounds:
  "(is_german_decimal s \<longrightarrow>
      convertGermanDecimal s = Inr (spec_convert s) \<and>
      (german_decimal_cm s < 2 ^ 50 \<longrightarrow>
         convertGermanDecimal s = Inr (Num (of_nat (german_decimal_cm s))))) \<and>
   convertGermanDecimal ''3,68'' = Inr (Num 368) \<and>
   convertGermanDecimal ''0,00'' = Inr (Num 0) \<and>
   convertGermanDecimal ''25,00'' = Inr (Num 2500)"
proof (intro conjI impI)
  assume "is_german_decimal s"
  then show "convertGermanDecimal s = Inr (spec_convert s)"
    by (rule convertGermanDecimal_valid(1))
next
  assume "is_german_decimal s" and "german_decimal_cm s < 2 ^ 50"
  then show "convertGermanDecimal s = Inr (Num (of_nat (german_decimal_cm s)))"
    by (simp add: convertGermanDecimal_valid centimeters_exact)
next
  have "is_german_decimal ''3,68''" and "german_decimal_cm ''3,68'' = 368"
    by code_simp+
  then show "convertGermanDecimal ''3,68'' = Inr (Num 368)"
    using convertGermanDecimal_exact [of "''3,68''" 368] by simp
  have "is_german_decimal ''0,00''" and "german_decimal_cm ''0,00'' = 0"
    by code_simp+
  then show "convertGermanDecimal ''0,00'' = Inr (Num 0)"
    using convertGermanDecimal_exact [of "''0,00''" 0] by simp
  have "is_german_decimal ''25,00''" and "german_decimal_cm ''25,00'' = 2500"
    by code_simp+
  then show "convertGermanDecimal ''25,00'' = Inr (Num 2500)"
    using convertGermanDecimal_exact [of "''25,00''" 2500] by simp
qed

text \<open>The theorem at \<^verbatim>\<open>12,34\<close>.\<close>

theorem convertGermanDecimal_rounds_witness:
  "is_german_decimal ''12,34'' \<and> german_decimal_cm ''12,34'' = 1234 \<and>
   convertGermanDecimal ''12,34'' = Inr (Num (of_nat (german_decimal_cm ''12,34'')))"
proof -
  have h1: "is_german_decimal ''12,34''"
    by code_simp
  have h2: "german_decimal_cm ''12,34'' = 1234"
    by code_simp
  have h3: "german_decimal_cm ''12,34'' < 2 ^ 50"
    unfolding h2 by simp
  show ?thesis
    using convertGermanDecimal_rounds [of "''12,34''"] h1 h2 h3 by blast
qed

section \<open>The parser\<close>

lemma parseXMLResponse_fields:
  assumes "parsererror (parseFromString env xml) = None"
    and "Datum (parseFromString env xml) = Some d" and "d \<noteq> []"
    and "Uhrzeit (parseFromString env xml) = Some u" and "u \<noteq> []"
    and "Pegel (parseFromString env xml) = Some p" and "p \<noteq> []"
  shows "parseXMLResponse env xml =
    (case convertGermanDecimal p of
       Inl e \<Rightarrow> Inl (Error (''XML parsing failed: '' @ message e))
     | Inr w \<Rightarrow> Inr \<lparr>waterLevel = w, date = trim d, time = trim u,
                     timestamp = parseGermanDateTime env d u,
                     graphic = graphic_of (Grafik (parseFromString env xml))\<rparr>)"
  using assms by (simp add: parseXMLResponse_def Let_def split: sum.splits)

lemma parseXMLResponse_missing:
  assumes "parsererror (parseFromString env xml) = None"
    and "Datum (parseFromString env xml) \<in> {None, Some []} \<or>
         Uhrzeit (parseFromString env xml) \<in> {None, Some []} \<or>
         Pegel (parseFromString env xml) \<in> {None, Some []}"
  shows "parseXMLResponse env xml =
         Inl (Error ''XML parsing failed: Missing required fields in XML response'')"
  using assms
  by (auto simp: parseXMLResponse_def Let_def Error_def split: option.splits)

lemma trim_head: "trim s = [] \<or> \<not> isWhiteSpace (hd (trim s))"
proof (cases "dropWhile isWhiteSpace s = []")
  case True
  then have "trim s = rev (dropWhile isWhiteSpace (rev []))"
    by (simp only: trim_def)
  then show ?thesis by simp
next
  case False
  then obtain x xs where Cons: "dropWhile isWhiteSpace s = x # xs"
    by (cases "dropWhile isWhiteSpace s") auto
  then have x: "\<not> isWhiteSpace x"
    using hd_dropWhile [of isWhiteSpace s] by (simp del: dropWhile_eq_Nil_conv)
  have "trim s = rev (dropWhile isWhiteSpace (rev xs @ [x]))"
    by (simp only: trim_def Cons rev.simps)
  also have "\<dots> = x # rev (dropWhile isWhiteSpace (rev xs))"
    using x by (simp add: dropWhile_append)
  finally show ?thesis
    using x by simp
qed

lemma trim_white:
  assumes "\<forall>c\<in>set s. isWhiteSpace c"
  shows "trim s = []"
proof -
  have "dropWhile isWhiteSpace s = []"
    using assms by simp
  then have "trim s = rev (dropWhile isWhiteSpace (rev []))"
    by (simp only: trim_def)
  then show ?thesis by simp
qed

lemma replace_comma_head:
  assumes "t = [] \<or> \<not> isWhiteSpace (hd t)"
  shows "dropWhile isWhiteSpace (replace_comma t) = replace_comma t"
proof (cases t)
  case Nil
  then show ?thesis by simp
next
  case (Cons c r)
  have "\<not> isWhiteSpace CHR ''.''"
    by (simp add: isWhiteSpace_def)
  then show ?thesis
    using assms by (simp add: Cons)
qed

lemma strip_sign_eq:
  "(if (case t of [] \<Rightarrow> False | c # r \<Rightarrow> c = CHR ''-'' \<or> c = CHR ''+'') then tl t else t) =
   (case t of [] \<Rightarrow> t | c # r \<Rightarrow> if c = CHR ''-'' \<or> c = CHR ''+'' then r else t)"
  by (cases t) simp_all

lemma unsigned_literal_None_iff:
  "unsigned_literal u = None \<longleftrightarrow>
   (case u of
      [] \<Rightarrow> True
    | c # r \<Rightarrow> \<not> isDigit c \<and> \<not> (c = CHR ''.'' \<and> (case r of [] \<Rightarrow> False | d # _ \<Rightarrow> isDigit d)))"
proof (cases u)
  case Nil
  then show ?thesis by (simp add: unsigned_literal_def)
next
  case (Cons c r)
  show ?thesis
  proof (cases "isDigit c")
    case True
    then show ?thesis by (simp add: unsigned_literal_def Cons Let_def)
  next
    case False
    then show ?thesis
      by (cases r) (auto simp: unsigned_literal_def Cons Let_def)
  qed
qed

lemma parseFloat_NaN_iff:
  "parseFloat s = NaN \<longleftrightarrow> \<not> numeric_prefix (dropWhile isWhiteSpace s)"
proof -
  let ?t = "dropWhile isWhiteSpace s"
  let ?u = "case ?t of [] \<Rightarrow> ?t | c # r \<Rightarrow> if c = CHR ''-'' \<or> c = CHR ''+'' then r else ?t"
  have u: "(if (case ?t of [] \<Rightarrow> False | c # r \<Rightarrow> c = CHR ''-'' \<or> c = CHR ''+'') then tl ?t else ?t) = ?u"
    by (rule strip_sign_eq)
  show ?thesis
  proof (cases "prefix ''Infinity'' ?u")
    case True
    then show ?thesis
      by (simp add: parseFloat_def Let_def u numeric_prefix_def)
  next
    case False
    have "parseFloat s = NaN \<longleftrightarrow> unsigned_literal ?u = None"
      using False
      by (simp add: parseFloat_def Let_def u round_double_not_NaN split: option.splits)
    then show ?thesis
      using False
      by (simp add: numeric_prefix_def Let_def unsigned_literal_None_iff split: list.splits)
  qed
qed

lemma convertGermanDecimal_cases:
  "convertGermanDecimal p =
     (if numeric_prefix (replace_comma (trim p))
      then Inr (Math_round (js_mul (parseFloat (replace_comma (trim p))) (Num 100)))
      else Inl (Error (''Number conversion failed: Invalid number format: '' @ p)))"
proof -
  have "dropWhile isWhiteSpace (replace_comma (trim p)) = replace_comma (trim p)"
    by (intro replace_comma_head trim_head)
  then have "isNaN (parseFloat (replace_comma (trim p))) \<longleftrightarrow> \<not> numeric_prefix (replace_comma (trim p))"
    by (simp add: isNaN_iff parseFloat_NaN_iff)
  then show ?thesis
    by (simp add: convertGermanDecimal_def Let_def Error_def)
qed

lemma sample_browser_fields:
  "parsererror (parseFromString (sample_browser (sample_document d u p)) xml) = None"
  "Datum (parseFromString (sample_browser (sample_document d u p)) xml) = Some d"
  "Uhrzeit (parseFromString (sample_browser (sample_document d u p)) xml) = Some u"
  "Pegel (parseFromString (sample_browser (sample_document d u p)) xml) = Some p"
  "Grafik (parseFromString (sample_browser (sample_document d u p)) xml) = None"
  by (simp_all add: sample_browser_def sample_document_def)

lemma parseXMLResponse_sample:
  assumes "d \<noteq> []" and "u \<noteq> []" and "p \<noteq> []"
  shows "parseXMLResponse (sample_browser (sample_document d u p)) xml =
    (case convertGermanDecimal p of
       Inl e \<Rightarrow> Inl (Error (''XML parsing failed: '' @ message e))
     | Inr w \<Rightarrow> Inr \<lparr>waterLevel = w, date = trim d, time = trim u,
                     timestamp = parseGermanDateTime (sample_browser (sample_document d u p)) d u,
                     graphic = Null\<rparr>)"
  using assms
  by (simp add: parseXMLResponse_fields [where d = d and u = u and p = p]
      sample_browser_fields graphic_of_def split: sum.splits)

lemma october_date_time:
  "parseGermanDateTime env ''27. Oktober 2025'' ''15:25'' =
   Date_getTime env 2025 (MonthIndex 9) 27 15 25"
proof -
  have "match_date ''27. Oktober 2025'' = Some (''27'', ''Oktober'', ''2025'')"
    and "monthNames ''Oktober'' = Some (MonthIndex 9)"
    and "match_time ''15:25'' = Some (''15'', ''25'')"
    and "digits_value ''2025'' = 2025" and "digits_value ''27'' = 27"
    and "digits_value ''15'' = 15" and "digits_value ''25'' = 25"
    by code_simp+
  then show ?thesis
    by (simp add: parseGermanDateTime_def)
qed

lemma sample_date_time:
  "parseGermanDateTime (sample_browser doc) ''27. Oktober 2025'' ''15:25'' =
   sample_getTime 2025 (MonthIndex 9) 27 15 25"
  by (simp add: october_date_time sample_browser_def)

lemma convert_3: "convertGermanDecimal ''3'' = Inr (Num 300)"
proof -
  have t: "replace_comma (trim ''3'') = ''3''"
    by code_simp
  have np: "numeric_prefix ''3''"
    by code_simp
  have "unsigned_literal ''3'' = Some 3"
    by code_simp
  then have pf: "parseFloat ''3'' = round_double 3"
    by (simp add: parseFloat_def isWhiteSpace_def)
  have "Math_round (js_mul (round_double (of_nat 300 / 100)) (Num 100)) = Num (of_nat 300)"
    by (rule centimeters_exact) simp
  then show ?thesis
    by (simp add: convertGermanDecimal_cases t np pf)
qed

lemma convert_368: "convertGermanDecimal ''3,68'' = Inr (Num 368)"
proof -
  have "is_german_decimal ''3,68''" and "german_decimal_cm ''3,68'' = 368"
    by code_simp+
  then show ?thesis
    using convertGermanDecimal_exact [of "''3,68''" 368] by simp
qed

lemma parseXMLResponse_not_numeric:
  assumes "parsererror (parseFromString env xml) = None"
    and "Datum (parseFromString env xml) = Some d" and "d \<noteq> []"
    and "Uhrzeit (parseFromString env xml) = Some u" and "u \<noteq> []"
    and "Pegel (parseFromString env xml) = Some p" and "p \<noteq> []"
    and "\<not> numeric_prefix (replace_comma (trim p))"
  shows "parseXMLResponse env xml =
    Inl (Error (''XML parsing failed: Number conversion failed: Invalid number format: '' @ p))"
  using assms(8)
  by (simp add: parseXMLResponse_fields [OF assms(1-7)] convertGermanDecimal_cases Error_def)

text \<open>The word characters of the expression are the ASCII ones, so a date in
  \<^verbatim>\<open>Maerz\<close>, spelled with its umlaut as in the month table, has no match.\<close>

lemma umlaut_month_no_match:
  "match_date (''27. M'' @ [CHR 0xE4] @ ''rz 2025'') = None"
  by code_simp

lemma parseGermanDateTime_fallback:
  assumes "match_date d = None \<or>
     (\<exists>day monthName year. match_date d = Some (day, monthName, year) \<and> monthNames monthName = None) \<or>
     match_time u = None"
  shows "parseGermanDateTime env d u = Date_now env"
  using assms by (auto simp: parseGermanDateTime_def split: option.splits)


text \<open>
  Claim C6, as the code has it. The number conversion fails, with the message
  \<^verbatim>\<open>Number conversion failed: Invalid number format: ...\<close>, exactly when the level field,
  trimmed and with its first comma replaced by a point, does not begin with a decimal
  literal; in every other case a number is returned. With the three fields present and
  not empty, the parse fails with that message (behind \<^verbatim>\<open>XML parsing failed: \<close>) in
  exactly the same case and returns a reading otherwise. The format
  \<^verbatim>\<open><integer>,<2-digit-fraction>\<close> is not checked.
\<close>

theorem convertGermanDecimal_rejects:
  "(convertGermanDecimal p =
      Inl (Error (''Number conversion failed: Invalid number format: '' @ p))
    \<longleftrightarrow> \<not> numeric_prefix (replace_comma (trim p))) \<and>
   ((\<exists>cm. convertGermanDecimal p = Inr cm) \<longleftrightarrow> numeric_prefix (replace_comma (trim p))) \<and>
   (parsererror (parseFromString env xml) = None \<and>
    Datum (parseFromString env xml) = Some d \<and> d \<noteq> [] \<and>
    Uhrzeit (parseFromString env xml) = Some u \<and> u \<noteq> [] \<and>
    Pegel (parseFromString env xml) = Some p \<and> p \<noteq> [] \<longrightarrow>
    (parseXMLResponse env xml =
       Inl (Error (''XML parsing failed: Number conversion failed: Invalid number format: '' @ p))
     \<longleftrightarrow> \<not> numeric_prefix (replace_comma (trim p))) \<and>
    ((\<exists>r. parseXMLResponse env xml = Inr r) \<longleftrightarrow> numeric_prefix (replace_comma (trim p))))"
proof (intro conjI impI)
  show "convertGermanDecimal p =
      Inl (Error (''Number conversion failed: Invalid number format: '' @ p))
    \<longleftrightarrow> \<not> numeric_prefix (replace_comma (trim p))"
    by (simp add: convertGermanDecimal_cases)
  show "(\<exists>cm. convertGermanDecimal p = Inr cm) \<longleftrightarrow> numeric_prefix (replace_comma (trim p))"
    by (simp add: convertGermanDecimal_cases)
next
  assume a: "parsererror (parseFromString env xml) = None \<and>
    Datum (parseFromString env xml) = Some d \<and> d \<noteq> [] \<and>
    Uhrzeit (parseFromString env xml) = Some u \<and> u \<noteq> [] \<and>
    Pegel (parseFromString env xml) = Some p \<and> p \<noteq> []"
  then have f: "parseXMLResponse env xml =
    (case convertGermanDecimal p of
       Inl e \<Rightarrow> Inl (Error (''XML parsing failed: '' @ message e))
     | Inr w \<Rightarrow> Inr \<lparr>waterLevel = w, date = trim d, time = trim u,
                     timestamp = parseGermanDateTime env d u,
                     graphic = graphic_of (Grafik (parseFromString env xml))\<rparr>)"
    by (intro parseXMLResponse_fields) simp_all
  show "parseXMLResponse env xml =
       Inl (Error (''XML parsing failed: Number conversion failed: Invalid number format: '' @ p))
     \<longleftrightarrow> \<not> numeric_prefix (replace_comma (trim p))"
    unfolding f by (simp add: convertGermanDecimal_cases Error_def)
  show "(\<exists>r. parseXMLResponse env xml = Inr r) \<longleftrightarrow> numeric_prefix (replace_comma (trim p))"
    unfolding f by (simp add: convertGermanDecimal_cases)
qed

text \<open>The theorem at the level \<^verbatim>\<open>n/a\<close>.\<close>

theorem convertGermanDecimal_rejects_witness:
  "parsererror (parseFromString
     (sample_browser (sample_document ''27. Oktober 2025'' ''15:25'' ''n/a'')) []) = None \<and>
   \<not> numeric_prefix (replace_comma (trim ''n/a'')) \<and>
   parseXMLResponse (sample_browser (sample_document ''27. Oktober 2025'' ''15:25'' ''n/a'')) [] =
     Inl (Error ''XML parsing failed: Number conversion failed: Invalid number format: n/a'')"
proof -
  have n: "\<not> numeric_prefix (replace_comma (trim ''n/a''))"
    by code_simp
  show ?thesis
    using convertGermanDecimal_rejects
      [where env = "sample_browser (sample_document ''27. Oktober 2025'' ''15:25'' ''n/a'')"
        and xml = "[]" and d = "''27. Oktober 2025''" and u = "''15:25''" and p = "''n/a''"] n
    by (simp add: sample_browser_fields)
qed

text \<open>
  Claim C6 as the claim states it fails: the level \<^verbatim>\<open>3\<close> has no comma and no fraction,
  and the parse returns a reading of 300 cm.
\<close>

theorem level_without_fraction_counterexample:
  "\<not> is_german_decimal ''3'' \<and>
   parseXMLResponse (sample_browser (sample_document ''27. Oktober 2025'' ''15:25'' ''3'')) [] =
     Inr \<lparr>waterLevel = Num 300, date = ''27. Oktober 2025'', time = ''15:25'',
          timestamp = sample_getTime 2025 (MonthIndex 9) 27 15 25, graphic = Null\<rparr>"
proof -
  have "\<not> is_german_decimal ''3''"
    by code_simp
  moreover have "trim ''27. Oktober 2025'' = ''27. Oktober 2025''" and "trim ''15:25'' = ''15:25''"
    by code_simp+
  ultimately show ?thesis
    by (simp add: parseXMLResponse_sample convert_3 sample_date_time)
qed

text \<open>
  Claim C7, as the code has it. The parse fails when the document has a parser error,
  and, with the message \<^verbatim>\<open>Missing required fields in XML response\<close>, when one of the
  elements \<^verbatim>\<open>Datum\<close>, \<^verbatim>\<open>Uhrzeit\<close>, \<^verbatim>\<open>Pegel\<close> is absent or has the empty string as
  its text. A \<^verbatim>\<open>Pegel\<close> of white space only is rejected too, by the number conversion.
  The fields are not trimmed before the check.
\<close>

theorem parseXMLResponse_required_fields:
  "(parsererror (parseFromString env xml) = Some txt \<longrightarrow>
      parseXMLResponse env xml = Inl (Error (''XML parsing failed: XML parsing error: '' @ txt))) \<and>
   (parsererror (parseFromString env xml) = None \<longrightarrow>
     ((Datum (parseFromString env xml) \<in> {None, Some []} \<or>
       Uhrzeit (parseFromString env xml) \<in> {None, Some []} \<or>
       Pegel (parseFromString env xml) \<in> {None, Some []}) \<longrightarrow>
      parseXMLResponse env xml =
        Inl (Error ''XML parsing failed: Missing required fields in XML response'')) \<and>
     (Datum (parseFromString env xml) = Some d \<and> d \<noteq> [] \<and>
      Uhrzeit (parseFromString env xml) = Some u \<and> u \<noteq> [] \<and>
      Pegel (parseFromString env xml) = Some p \<and> p \<noteq> [] \<and> (\<forall>c\<in>set p. isWhiteSpace c) \<longrightarrow>
      parseXMLResponse env xml =
        Inl (Error (''XML parsing failed: Number conversion failed: Invalid number format: '' @ p))))"
proof (intro conjI impI)
  assume "parsererror (parseFromString env xml) = Some txt"
  then show "parseXMLResponse env xml = Inl (Error (''XML parsing failed: XML parsing error: '' @ txt))"
    by (simp add: parseXMLResponse_def Let_def Error_def)
next
  assume "parsererror (parseFromString env xml) = None"
    and "Datum (parseFromString env xml) \<in> {None, Some []} \<or>
       Uhrzeit (parseFromString env xml) \<in> {None, Some []} \<or>
       Pegel (parseFromString env xml) \<in> {None, Some []}"
  then show "parseXMLResponse env xml =
        Inl (Error ''XML parsing failed: Missing required fields in XML response'')"
    by (rule parseXMLResponse_missing)
next
  assume pe: "parsererror (parseFromString env xml) = None"
    and a: "Datum (parseFromString env xml) = Some d \<and> d \<noteq> [] \<and>
      Uhrzeit (parseFromString env xml) = Some u \<and> u \<noteq> [] \<and>
      Pegel (parseFromString env xml) = Some p \<and> p \<noteq> [] \<and> (\<forall>c\<in>set p. isWhiteSpace c)"
  have "trim p = []"
    using a by (intro trim_white) simp
  then have "\<not> numeric_prefix (replace_comma (trim p))"
    by (simp add: numeric_prefix_def)
  then show "parseXMLResponse env xml =
        Inl (Error (''XML parsing failed: Number conversion failed: Invalid number format: '' @ p))"
    using pe a by (intro parseXMLResponse_not_numeric [where d = d and u = u]) simp_all
qed

text \<open>The theorem at a response without a \<^verbatim>\<open>Pegel\<close> element.\<close>

theorem parseXMLResponse_required_fields_witness:
  "parsererror (parseFromString (sample_browser document_without_pegel) []) = None \<and>
   Pegel (parseFromString (sample_browser document_without_pegel) []) \<in> {None, Some []} \<and>
   parseXMLResponse (sample_browser document_without_pegel) [] =
     Inl (Error ''XML parsing failed: Missing required fields in XML response'')"
  using parseXMLResponse_required_fields
    [where env = "sample_browser document_without_pegel" and xml = "[]"]
  by (simp add: sample_browser_def document_without_pegel_def)

text \<open>
  Claim C7 as the claim states it fails: a \<^verbatim>\<open>Datum\<close> of three spaces is not rejected.
  The reading returned has the empty string as its date and the current time as its
  timestamp.
\<close>

theorem blank_date_accepted_counterexample:
  "list_all isWhiteSpace ''   '' \<and>
   parseXMLResponse (sample_browser (sample_document ''   '' ''15:25'' ''3,68'')) [] =
     Inr \<lparr>waterLevel = Num 368, date = [], time = ''15:25'',
          timestamp = 1761575100000, graphic = Null\<rparr>"
proof -
  have "list_all isWhiteSpace ''   ''"
    by (simp add: isWhiteSpace_def)
  moreover have "trim ''   '' = []" and "trim ''15:25'' = ''15:25''" and "match_date ''   '' = None"
    by code_simp+
  moreover have "parseGermanDateTime env ''   '' ''15:25'' = Date_now env" for env
    by (intro parseGermanDateTime_fallback disjI1) code_simp
  moreover have "Date_now (sample_browser doc) = 1761575100000" for doc
    by (simp add: sample_browser_def)
  ultimately show ?thesis
    by (simp add: parseXMLResponse_sample convert_368 del: match_date.simps)
qed




section \<open>The retry loop and the proxy switch\<close>

lemma latch_fields [simp]:
  "apiUrl (latch c e a) = apiUrl c" "corsProxyUrl (latch c e a) = corsProxyUrl c"
  "maxRetries (latch c e a) = maxRetries c" "retryDelay (latch c e a) = retryDelay c"
  "timeout (latch c e a) = timeout c"
  by (simp_all add: latch_def)

lemma latch_keeps: "useCorsProxy c \<Longrightarrow> latch c e a = c"
  by (simp add: latch_def)

lemma fetch_loop_latched:
  "useCorsProxy c \<Longrightarrow> useCorsProxy (fst (snd (fetch_loop env c attempt lastError trace)))"
proof (induction env c attempt lastError trace rule: fetch_loop.induct)
  case (1 env c attempt lastError trace)
  show ?case
  proof (cases "attempt \<le> maxRetries c")
    case False
    then show ?thesis using "1.prems" by (simp add: fetch_loop.simps [of env c attempt])
  next
    case True
    show ?thesis
    proof (cases "try_fetch env attempt (request_url c)")
      case (Inr data)
      then show ?thesis
        using True "1.prems" by (simp add: fetch_loop.simps [of env c attempt])
    next
      case (Inl error)
      then show ?thesis
        using True "1.prems" "1.IH" [OF True Inl]
        by (simp add: fetch_loop.simps [of env c attempt] latch_keeps)
    qed
  qed
qed

lemma fetch_loop_proxy_requests:
  assumes "useCorsProxy c"
  shows "\<exists>k. requests (snd (snd (fetch_loop env c attempt lastError trace))) =
             requests trace @ replicate k (corsProxyUrl c @ apiUrl c)"
  using assms
proof (induction env c attempt lastError trace rule: fetch_loop.induct)
  case (1 env c attempt lastError trace)
  let ?url = "corsProxyUrl c @ apiUrl c"
  have url: "request_url c = ?url"
    using "1.prems" by (simp add: request_url_def)
  show ?case
  proof (cases "attempt \<le> maxRetries c")
    case False
    then have "requests (snd (snd (fetch_loop env c attempt lastError trace))) =
        requests trace @ replicate 0 ?url"
      by (simp add: fetch_loop.simps [of env c attempt])
    then show ?thesis by blast
  next
    case True
    show ?thesis
    proof (cases "try_fetch env attempt (request_url c)")
      case (Inr data)
      then have "requests (snd (snd (fetch_loop env c attempt lastError trace))) =
          requests trace @ replicate 1 ?url"
        using True by (simp add: fetch_loop.simps [of env c attempt] requests_def url)
      then show ?thesis by blast
    next
      case (Inl error)
      let ?trace' = "trace @ [Requested (request_url c)] @ backoff c attempt"
      obtain k where k: "requests (snd (snd (fetch_loop env c (attempt + 1) (Some error) ?trace'))) =
          requests ?trace' @ replicate k ?url"
        using "1.IH" [OF True Inl] "1.prems" by (auto simp: latch_keeps)
      have "requests ?trace' = requests trace @ [?url]"
        by (simp add: requests_def url backoff_def)
      then have "requests (snd (snd (fetch_loop env c attempt lastError trace))) =
          requests trace @ replicate (Suc k) ?url"
        using True Inl k "1.prems"
        by (simp add: fetch_loop.simps [of env c attempt] latch_keeps)
      then show ?thesis by blast
    qed
  qed
qed

lemma fetch_first_cors:
  assumes "1 \<le> maxRetries c" and "\<not> useCorsProxy c"
    and "try_fetch env 1 (apiUrl c) = Inl e" and "isCorsError e"
  shows "fetchCurrentLevel env c =
    fetch_loop env (c\<lparr>useCorsProxy := True\<rparr>) 2 (Some e) ([Requested (apiUrl c)] @ backoff c 1)"
  unfolding fetchCurrentLevel_def using assms
  by (subst fetch_loop.simps) (simp add: request_url_def latch_def numeral_2_eq_2)

lemma try_fetch_Rejected: "fetch env a url = Rejected e \<Longrightarrow> try_fetch env a url = Inl e"
  by (simp add: try_fetch_def)

lemma try_fetch_ok:
  "fetch env a url = Response True status (Inr xmlText) \<Longrightarrow>
   try_fetch env a url = parseXMLResponse env xmlText"
  by (simp add: try_fetch_def)

lemma flaky_browser_parse:
  "parseXMLResponse flaky_browser xml =
   Inr \<lparr>waterLevel = Num 368, date = ''27. Oktober 2025'', time = ''15:25'',
        timestamp = sample_getTime 2025 (MonthIndex 9) 27 15 25, graphic = Null\<rparr>"
proof -
  have doc: "parseFromString flaky_browser xml =
      sample_document ''27. Oktober 2025'' ''15:25'' ''3,68''"
    and gt: "Date_getTime flaky_browser = sample_getTime"
    by (simp_all add: flaky_browser_def sample_browser_def)
  have t: "trim ''27. Oktober 2025'' = ''27. Oktober 2025''" "trim ''15:25'' = ''15:25''"
    by code_simp+
  have "parseXMLResponse flaky_browser xml =
    (case convertGermanDecimal ''3,68'' of
       Inl e \<Rightarrow> Inl (Error (''XML parsing failed: '' @ message e))
     | Inr w \<Rightarrow> Inr \<lparr>waterLevel = w, date = trim ''27. Oktober 2025'', time = trim ''15:25'',
                     timestamp = parseGermanDateTime flaky_browser ''27. Oktober 2025'' ''15:25'',
                     graphic = graphic_of (Grafik (parseFromString flaky_browser xml))\<rparr>)"
    by (rule parseXMLResponse_fields) (simp_all add: doc sample_document_def)
  then show ?thesis
    by (simp add: convert_368 t october_date_time gt doc sample_document_def graphic_of_def)
qed

text \<open>
  Claim C8. A call of \<^verbatim>\<open>fetchCurrentLevel\<close> never switches the proxy off: a client that
  uses it still does afterwards (only \<^verbatim>\<open>disableCorsProxy\<close> resets the flag). If the first
  attempt fails with an error that \<^verbatim>\<open>isCorsError\<close> accepts and the proxy is not in use,
  the flag is set when the call ends and every later request of the call goes to the
  proxy URL. With three attempts allowed, a transport that rejects the direct request
  and the first proxy request with such errors and answers the second proxy request
  with a response that parses makes the call return that reading, with the flag set,
  after waiting one and then two retry delays.
\<close>

theorem fetchCurrentLevel_latches:
  "(useCorsProxy c \<longrightarrow> useCorsProxy (fst (snd (fetchCurrentLevel env c)))) \<and>
   \<not> useCorsProxy (disableCorsProxy c) \<and>
   (1 \<le> maxRetries c \<and> \<not> useCorsProxy c \<and>
    try_fetch env 1 (apiUrl c) = Inl e \<and> isCorsError e \<longrightarrow>
      useCorsProxy (fst (snd (fetchCurrentLevel env c))) \<and>
      (\<exists>k. requests (snd (snd (fetchCurrentLevel env c))) =
            apiUrl c # replicate k (corsProxyUrl c @ apiUrl c))) \<and>
   (maxRetries c = 3 \<and> \<not> useCorsProxy c \<and>
    fetch env 1 (apiUrl c) = Rejected e1 \<and> isCorsError e1 \<and>
    fetch env 2 (corsProxyUrl c @ apiUrl c) = Rejected e2 \<and> isCorsError e2 \<and>
    fetch env 3 (corsProxyUrl c @ apiUrl c) = Response True status (Inr xmlText) \<and>
    parseXMLResponse env xmlText = Inr data \<longrightarrow>
      fetchCurrentLevel env c =
        (Inr data, c\<lparr>useCorsProxy := True\<rparr>,
         [Requested (apiUrl c), Waited (retryDelay c * 1),
          Requested (corsProxyUrl c @ apiUrl c), Waited (retryDelay c * 2),
          Requested (corsProxyUrl c @ apiUrl c)]))"
proof (intro conjI impI)
  assume "useCorsProxy c"
  then show "useCorsProxy (fst (snd (fetchCurrentLevel env c)))"
    unfolding fetchCurrentLevel_def by (rule fetch_loop_latched)
next
  show "\<not> useCorsProxy (disableCorsProxy c)"
    by (simp add: disableCorsProxy_def)
next
  assume a: "1 \<le> maxRetries c \<and> \<not> useCorsProxy c \<and>
    try_fetch env 1 (apiUrl c) = Inl e \<and> isCorsError e"
  let ?c = "c\<lparr>useCorsProxy := True\<rparr>"
  have eq: "fetchCurrentLevel env c =
      fetch_loop env ?c 2 (Some e) ([Requested (apiUrl c)] @ backoff c 1)"
    using a by (intro fetch_first_cors) simp_all
  show "useCorsProxy (fst (snd (fetchCurrentLevel env c)))"
    unfolding eq by (rule fetch_loop_latched) simp
  obtain k where "requests (snd (snd (fetch_loop env ?c 2 (Some e)
        ([Requested (apiUrl c)] @ backoff c 1)))) =
      requests ([Requested (apiUrl c)] @ backoff c 1) @ replicate k (corsProxyUrl ?c @ apiUrl ?c)"
    using fetch_loop_proxy_requests [of ?c env 2 "Some e" "[Requested (apiUrl c)] @ backoff c 1"]
    by auto
  moreover have "requests ([Requested (apiUrl c)] @ backoff c 1) = [apiUrl c]"
    by (simp add: requests_def backoff_def)
  ultimately have "requests (snd (snd (fetchCurrentLevel env c))) =
      apiUrl c # replicate k (corsProxyUrl c @ apiUrl c)"
    unfolding eq by simp
  then show "\<exists>k. requests (snd (snd (fetchCurrentLevel env c))) =
      apiUrl c # replicate k (corsProxyUrl c @ apiUrl c)"
    by blast
next
  assume a: "maxRetries c = 3 \<and> \<not> useCorsProxy c \<and>
    fetch env 1 (apiUrl c) = Rejected e1 \<and> isCorsError e1 \<and>
    fetch env 2 (corsProxyUrl c @ apiUrl c) = Rejected e2 \<and> isCorsError e2 \<and>
    fetch env 3 (corsProxyUrl c @ apiUrl c) = Response True status (Inr xmlText) \<and>
    parseXMLResponse env xmlText = Inr data"
  let ?c = "c\<lparr>useCorsProxy := True\<rparr>"
  let ?p = "corsProxyUrl c @ apiUrl c"
  have t1: "try_fetch env 1 (apiUrl c) = Inl e1"
    and t2: "try_fetch env 2 ?p = Inl e2" and t3: "try_fetch env 3 ?p = Inr data"
    using a by (simp_all add: try_fetch_Rejected try_fetch_ok)
  have url: "request_url ?c = ?p"
    by (simp add: request_url_def)
  have step1: "fetchCurrentLevel env c =
      fetch_loop env ?c 2 (Some e1) [Requested (apiUrl c), Waited (retryDelay c * 1)]"
    using a t1 by (simp add: fetch_first_cors [of c env e1] backoff_def)
  have step2: "fetch_loop env ?c 2 (Some e1) [Requested (apiUrl c), Waited (retryDelay c * 1)] =
      fetch_loop env ?c 3 (Some e2)
        [Requested (apiUrl c), Waited (retryDelay c * 1), Requested ?p, Waited (retryDelay c * 2)]"
    using a t2
    by (subst fetch_loop.simps) (simp add: url latch_keeps backoff_def numeral_3_eq_3)
  have step3: "fetch_loop env ?c 3 (Some e2)
        [Requested (apiUrl c), Waited (retryDelay c * 1), Requested ?p, Waited (retryDelay c * 2)] =
      (Inr data, ?c,
       [Requested (apiUrl c), Waited (retryDelay c * 1), Requested ?p, Waited (retryDelay c * 2),
        Requested ?p])"
    using a t3 by (subst fetch_loop.simps) (simp add: url)
  show "fetchCurrentLevel env c =
        (Inr data, ?c,
         [Requested (apiUrl c), Waited (retryDelay c * 1),
          Requested ?p, Waited (retryDelay c * 2), Requested ?p])"
    by (simp only: step1 step2 step3)
qed

text \<open>The theorem at the client of the constructor and a transport that fails twice
  with \<^verbatim>\<open>TypeError: Failed to fetch\<close>.\<close>

theorem fetchCurrentLevel_latches_witness:
  "maxRetries cologne_client = 3 \<and> \<not> useCorsProxy cologne_client \<and>
   fetch flaky_browser 1 (apiUrl cologne_client) =
     Rejected \<lparr>name = ''TypeError'', message = ''Failed to fetch''\<rparr> \<and>
   isCorsError \<lparr>name = ''TypeError'', message = ''Failed to fetch''\<rparr> \<and>
   fst (fetchCurrentLevel flaky_browser cologne_client) =
     Inr \<lparr>waterLevel = Num 368, date = ''27. Oktober 2025'', time = ''15:25'',
          timestamp = sample_getTime 2025 (MonthIndex 9) 27 15 25, graphic = Null\<rparr> \<and>
   fst (snd (fetchCurrentLevel flaky_browser cologne_client)) =
     cologne_client\<lparr>useCorsProxy := True\<rparr>"
proof -
  let ?e = "\<lparr>name = ''TypeError'', message = ''Failed to fetch''\<rparr>"
  have c: "maxRetries cologne_client = 3" "\<not> useCorsProxy cologne_client"
    by (simp_all add: cologne_client_def new_client_def)
  have e: "isCorsError ?e"
    by code_simp
  have f: "fetch flaky_browser = flaky_fetch"
    by (simp add: flaky_browser_def sample_browser_def)
  have f1: "fetch flaky_browser 1 (apiUrl cologne_client) = Rejected ?e"
    and f2: "fetch flaky_browser 2 (corsProxyUrl cologne_client @ apiUrl cologne_client) = Rejected ?e"
    by (simp_all add: f flaky_fetch_def)
  have "corsProxyUrl cologne_client = ''https://cors-anywhere.herokuapp.com/''"
    by (simp add: cologne_client_def new_client_def)
  then have f3: "fetch flaky_browser 3 (corsProxyUrl cologne_client @ apiUrl cologne_client) =
      Response True 200 (Inr ''<Hochwasserpegel/>'')"
    by (simp only: f flaky_fetch_def prefixI [OF refl] simp_thms if_True)
  show ?thesis
    using fetchCurrentLevel_latches
      [where c = cologne_client and env = flaky_browser and ?e1.0 = ?e and ?e2.0 = ?e
        and status = 200 and xmlText = "''<Hochwasserpegel/>''"
        and data = "\<lparr>waterLevel = Num 368, date = ''27. Oktober 2025'', time = ''15:25'',
          timestamp = sample_getTime 2025 (MonthIndex 9) 27 15 25, graphic = Null\<rparr>"]
      c e f1 f2 f3 flaky_browser_parse [of "''<Hochwasserpegel/>''"]
    by simp
qed

end
